theory Spec2Isabelle
  imports Complex_Main "HOL-Library.AList"
begin

section \<open>Data model (src/models/event.py)\<close>

text \<open>
  Python \<open>str\<close> values are modelled as \<open>string\<close>, one \<open>char\<close> per code point, restricted
  to the code points below 256. A \<open>datetime\<close> is an opaque instant, modelled as an
  integer count of microseconds.
\<close>

type_synonym datetime = int

datatype EventType =
    PATIENT_VISIT | LAB_RESULT | PRESCRIPTION | VITALS
  | DIAGNOSIS | PROCEDURE | DISCHARGE | ADMISSION

fun EventType_value :: "EventType \<Rightarrow> string" where
  "EventType_value PATIENT_VISIT = ''patient_visit''"
| "EventType_value LAB_RESULT = ''lab_result''"
| "EventType_value PRESCRIPTION = ''prescription''"
| "EventType_value VITALS = ''vitals''"
| "EventType_value DIAGNOSIS = ''diagnosis''"
| "EventType_value PROCEDURE = ''procedure''"
| "EventType_value DISCHARGE = ''discharge''"
| "EventType_value ADMISSION = ''admission''"

datatype EventSource = EHR_EPIC | EHR_CERNER | LAB_SYSTEM | IOT_DEVICE | MANUAL_ENTRY

record EventMetadata =
  source :: EventSource
  version :: string
  correlation_id :: "string option"
  retry_count :: int

text \<open>
  The payload of an event is a Python \<open>dict\<close>, a mutable object. Dict objects live in a
  store and an event holds the address of its payload. A dict is an association list
  in insertion order; \<open>AList.update\<close> is Python's item assignment (an existing key keeps
  its position, a new key goes to the end). Payload values are JSON-like values
  (floats are left out).
\<close>

type_synonym addr = nat

datatype py_value =
    PyNone | PyBool bool | PyInt int | PyStr string
  | PyList "py_value list" | PyDict "(string \<times> py_value) list"

type_synonym pydict = "(string \<times> py_value) list"

record HealthcareEvent =
  event_id :: "string option"
  event_type :: EventType
  timestamp :: datetime
  provider_id :: string
  patient_id :: string
  facility_id :: "string option"
  department :: "string option"
  payload :: addr
  metadata :: EventMetadata

record ProcessedEvent = HealthcareEvent +
  processed_at :: datetime
  encryption_key_id :: "string option"
  checksum :: "string option"
  partition_key :: "string option"

section \<open>Stream producer (src/services/kinesis_producer.py)\<close>

text \<open>
  The boto3 client is the transport. A call returns a response, or raises
  \<open>ClientError\<close> with the error code of the service, or raises another exception
  (botocore raises exceptions that are not \<open>ClientError\<close> when no response of the
  service arrives: a connection failure, a timeout, missing credentials), recorded by
  its name. Every call of the producer, every sleep and every log line is appended
  to a trace; a transport call is recorded together with its outcome. The transport
  decides the outcome of a call from the trace so far and the call's arguments.

  The methods of the producer catch \<open>ClientError\<close> only. Their results are sums:
  \<open>Inr\<close> holds the value returned, \<open>Inl\<close> the name of an exception that left the
  method.
\<close>

datatype put_result =
    PutOk string string
  | PutClientError string
  | PutOtherError string

datatype record_result =
    RecordOk string string
  | RecordError string string

record put_records_response =
  FailedRecordCount :: "int option"
  Records :: "record_result list"

datatype put_records_result =
    BatchOk put_records_response
  | BatchClientError string
  | BatchOtherError string

datatype effect =
    PutRecord string string "string option" put_result
  | PutRecords string "(string \<times> string option) list" put_records_result
  | Sleep rat
  | Log string

type_synonym trace = "effect list"

record kinesis_client =
  client_put_record :: "trace \<Rightarrow> string \<Rightarrow> string \<Rightarrow> string option \<Rightarrow> put_result"
  client_put_records :: "trace \<Rightarrow> string \<Rightarrow> (string \<times> string option) list \<Rightarrow> put_records_result"

text \<open>
  \<open>dump_json_bytes\<close> stands for \<open>event.model_dump_json().encode()\<close> of pydantic, the wire
  shape of a record.
\<close>

record KinesisProducer =
  client :: kinesis_client
  stream_name :: string
  dlq_stream_name :: string
  max_retries :: nat
  base_delay :: rat
  dump_json_bytes :: "ProcessedEvent \<Rightarrow> string"

record Settings =
  KINESIS_STREAM_NAME :: string
  KINESIS_DLQ_STREAM_NAME :: string
  KMS_KEY_ID :: string

definition settings :: Settings where
  "settings = \<lparr> KINESIS_STREAM_NAME = ''healthcare-events'',
                 KINESIS_DLQ_STREAM_NAME = ''healthcare-events-dlq'',
                 KMS_KEY_ID = ''alias/healthcare-analytics-key'' \<rparr>"

definition KinesisProducer_init ::
  "Settings \<Rightarrow> kinesis_client \<Rightarrow> (ProcessedEvent \<Rightarrow> string) \<Rightarrow> KinesisProducer" where
  "KinesisProducer_init cfg c dump =
     \<lparr> client = c,
       stream_name = KINESIS_STREAM_NAME cfg,
       dlq_stream_name = KINESIS_DLQ_STREAM_NAME cfg,
       max_retries = 3,
       base_delay = 1 / 10,
       dump_json_bytes = dump \<rparr>"

text \<open>
  \<open>_put_record\<close> and \<open>_send_to_dlq\<close>: the same call of the client, on the primary and on
  the dead-letter stream. \<open>_send_to_dlq\<close> catches a \<open>ClientError\<close> and logs it; any other
  exception of the call leaves it.
\<close>

definition put_record :: "KinesisProducer \<Rightarrow> ProcessedEvent \<Rightarrow> trace \<Rightarrow> put_result" where
  "put_record p e tr =
     client_put_record (client p) tr (stream_name p) (dump_json_bytes p e) (partition_key e)"

definition send_to_dlq ::
  "KinesisProducer \<Rightarrow> ProcessedEvent \<Rightarrow> trace \<Rightarrow> (string + unit) \<times> trace" where
  "send_to_dlq p e tr =
     (let r = client_put_record (client p) tr (dlq_stream_name p) (dump_json_bytes p e)
                (partition_key e);
          call = PutRecord (dlq_stream_name p) (dump_json_bytes p e) (partition_key e) r
      in case r of
           PutOk sh sq \<Rightarrow> (Inr (), tr @ [call, Log ''event_sent_to_dlq''])
         | PutClientError code \<Rightarrow> (Inr (), tr @ [call, Log ''dlq_publish_failed''])
         | PutOtherError exn \<Rightarrow> (Inl exn, tr @ [call]))"

text \<open>
  The \<open>for attempt in range(self.max_retries)\<close> loop of \<open>send_event\<close>, over the attempt
  numbers still to run. The result is \<open>Inr True\<close> when the loop returned from inside
  (the record was published), \<open>Inr False\<close> when it ended or was left by \<open>break\<close>, and
  \<open>Inl\<close> when an exception that is not a \<open>ClientError\<close> left it.
\<close>

fun send_attempts ::
  "KinesisProducer \<Rightarrow> ProcessedEvent \<Rightarrow> nat list \<Rightarrow> trace \<Rightarrow> (string + bool) \<times> trace" where
  "send_attempts p e [] tr = (Inr False, tr)"
| "send_attempts p e (attempt # rest) tr =
     (let r = put_record p e tr;
          call = PutRecord (stream_name p) (dump_json_bytes p e) (partition_key e) r
      in case r of
           PutOk sh sq \<Rightarrow> (Inr True, tr @ [call, Log ''event_published''])
         | PutClientError error_code \<Rightarrow>
             (let tr' = tr @ [call, Log ''kinesis_publish_retry'']
              in if error_code = ''ProvisionedThroughputExceededException''
                 then send_attempts p e rest (tr' @ [Sleep (base_delay p * 2 ^ attempt)])
                 else (Inr False, tr'))
         | PutOtherError exn \<Rightarrow> (Inl exn, tr @ [call]))"

definition send_event ::
  "KinesisProducer \<Rightarrow> ProcessedEvent \<Rightarrow> trace \<Rightarrow> (string + bool) \<times> trace" where
  "send_event p e tr =
     (case send_attempts p e [0 ..< max_retries p] tr of
        (Inl exn, tr') \<Rightarrow> (Inl exn, tr')
      | (Inr published, tr') \<Rightarrow>
          (if published then (Inr True, tr')
           else (case send_to_dlq p e tr' of
                   (Inl exn, tr'') \<Rightarrow> (Inl exn, tr'')
                 | (Inr u, tr'') \<Rightarrow> (Inr False, tr''))))"

text \<open>
  \<open>_handle_failed_records\<close>: the loop over \<open>zip(events, results)\<close>; a result with an
  \<open>ErrorCode\<close> key is a \<open>RecordError\<close>. An exception that leaves \<open>_send_to_dlq\<close> ends
  the loop.
\<close>

fun handle_failed_records ::
  "KinesisProducer \<Rightarrow> ProcessedEvent list \<Rightarrow> record_result list \<Rightarrow> trace
     \<Rightarrow> (string + unit) \<times> trace" where
  "handle_failed_records p (e # es) (RecordError c m # rs) tr =
     (case send_to_dlq p e tr of
        (Inl exn, tr') \<Rightarrow> (Inl exn, tr')
      | (Inr u, tr') \<Rightarrow> handle_failed_records p es rs tr')"
| "handle_failed_records p (e # es) (RecordOk sh sq # rs) tr =
     handle_failed_records p es rs tr"
| "handle_failed_records p es rs tr = (Inr (), tr)"

text \<open>The loop \<open>for event in events: await self._send_to_dlq(event)\<close> of \<open>send_batch\<close>.\<close>

fun send_all_to_dlq ::
  "KinesisProducer \<Rightarrow> ProcessedEvent list \<Rightarrow> trace \<Rightarrow> (string + unit) \<times> trace" where
  "send_all_to_dlq p [] tr = (Inr (), tr)"
| "send_all_to_dlq p (e # es) tr =
     (case send_to_dlq p e tr of
        (Inl exn, tr') \<Rightarrow> (Inl exn, tr')
      | (Inr u, tr') \<Rightarrow> send_all_to_dlq p es tr')"

record batch_summary =
  total :: int
  success :: int
  failed :: int

definition send_batch ::
  "KinesisProducer \<Rightarrow> ProcessedEvent list \<Rightarrow> trace \<Rightarrow> (string + batch_summary) \<times> trace" where
  "send_batch p events tr =
     (let records = map (\<lambda>e. (dump_json_bytes p e, partition_key e)) events;
          r = client_put_records (client p) tr (stream_name p) records;
          call = PutRecords (stream_name p) records r
      in case r of
           BatchOk response \<Rightarrow>
             (let failed_count = (case FailedRecordCount response of None \<Rightarrow> 0 | Some k \<Rightarrow> k);
                  success_count = int (length events) - failed_count;
                  tr1 = tr @ [call, Log ''batch_published''];
                  summary = \<lparr> total = int (length events), success = success_count,
                              failed = failed_count \<rparr>
              in if failed_count > 0
                 then (case handle_failed_records p events (Records response) tr1 of
                         (Inl exn, tr2) \<Rightarrow> (Inl exn, tr2)
                       | (Inr u, tr2) \<Rightarrow> (Inr summary, tr2))
                 else (Inr summary, tr1))
         | BatchClientError code \<Rightarrow>
             (case send_all_to_dlq p events (tr @ [call, Log ''batch_publish_failed'']) of
                (Inl exn, tr2) \<Rightarrow> (Inl exn, tr2)
              | (Inr u, tr2) \<Rightarrow>
                  (Inr \<lparr> total = int (length events), success = 0,
                         failed = int (length events) \<rparr>,
                   tr2))
         | BatchOtherError exn \<Rightarrow> (Inl exn, tr @ [call]))"

text \<open>Observers of a trace, used to state what reached which stream.\<close>

fun delivered :: "string \<Rightarrow> effect \<Rightarrow> (string \<times> string option) list" where
  "delivered s (PutRecord s' d pk (PutOk sh sq)) = (if s' = s then [(d, pk)] else [])"
| "delivered s (PutRecords s' recs (BatchOk resp)) =
     (if s' = s
      then map fst (filter (\<lambda>(r, res). case res of RecordOk sh sq \<Rightarrow> True | RecordError c m \<Rightarrow> False)
                      (zip recs (Records resp)))
      else [])"
| "delivered s other = []"

definition reached :: "string \<Rightarrow> trace \<Rightarrow> (string \<times> string option) list" where
  "reached s tr = concat (map (delivered s) tr)"

fun put_attempt :: "string \<Rightarrow> effect \<Rightarrow> (string \<times> string option) list" where
  "put_attempt s (PutRecord s' d pk r) = (if s' = s then [(d, pk)] else [])"
| "put_attempt s other = []"

definition put_attempts :: "string \<Rightarrow> trace \<Rightarrow> (string \<times> string option) list" where
  "put_attempts s tr = concat (map (put_attempt s) tr)"

fun batch_call :: "effect \<Rightarrow> bool" where
  "batch_call (PutRecords s recs r) = True"
| "batch_call other = False"

definition wire :: "KinesisProducer \<Rightarrow> ProcessedEvent \<Rightarrow> string \<times> string option" where
  "wire p e = (dump_json_bytes p e, partition_key e)"

fun record_failed :: "record_result \<Rightarrow> bool" where
  "record_failed (RecordError c m) = True"
| "record_failed (RecordOk sh sq) = False"

definition throttled_attempt :: "KinesisProducer \<Rightarrow> ProcessedEvent \<Rightarrow> nat \<Rightarrow> trace" where
  "throttled_attempt p e attempt =
     [PutRecord (stream_name p) (dump_json_bytes p e) (partition_key e)
        (PutClientError ''ProvisionedThroughputExceededException''),
      Log ''kinesis_publish_retry'',
      Sleep (base_delay p * 2 ^ attempt)]"

section \<open>Event pipeline (src/services/event_processor.py, src/services/encryption.py)\<close>

datatype error = ValidationError "string list" | EncryptionError

text \<open>
  \<open>str.strip()\<close> removes leading and trailing whitespace. Among the code points below
  256 the whitespace characters of Python (\<open>str.isspace\<close>) are 9 to 13, 28 to 32, 133
  and 160.
\<close>

definition isspace :: "char \<Rightarrow> bool" where
  "isspace c = (c \<in> set [CHR 0x09, CHR 0x0A, CHR 0x0B, CHR 0x0C, CHR 0x0D,
                          CHR 0x1C, CHR 0x1D, CHR 0x1E, CHR 0x1F, CHR 0x20,
                          CHR 0x85, CHR 0xA0])"

definition strip :: "string \<Rightarrow> string" where
  "strip s = rev (dropWhile isspace (rev (dropWhile isspace s)))"

text \<open>
  A \<open>str\<close> field declared \<open>Field(..., min_length=lo, max_length=hi)\<close> with a
  validator that raises when \<open>not v or not v.strip()\<close>.
\<close>

definition id_field_ok :: "nat \<Rightarrow> nat \<Rightarrow> string \<Rightarrow> bool" where
  "id_field_ok lo hi v = (lo \<le> length v \<and> length v \<le> hi \<and> \<not> (v = [] \<or> strip v = []))"

definition field_errors :: "string \<Rightarrow> string \<Rightarrow> string list" where
  "field_errors provider patient =
     (if id_field_ok 1 50 provider then [] else [''provider_id'']) @
     (if id_field_ok 1 100 patient then [] else [''patient_id''])"

text \<open>
  Constructing a \<open>HealthcareEvent\<close> from field values: pydantic validates the fields and
  raises one \<open>ValidationError\<close> (a \<open>ValueError\<close>) naming the fields that failed.
\<close>

definition HealthcareEvent_init :: "HealthcareEvent \<Rightarrow> error + HealthcareEvent" where
  "HealthcareEvent_init e =
     (case field_errors (provider_id e) (patient_id e) of
        [] \<Rightarrow> Inr e
      | errs \<Rightarrow> Inl (ValidationError errs))"

text \<open>\<open>ProcessedEvent\<close> is a subclass: it inherits the field constraints and validators.\<close>

definition ProcessedEvent_init :: "ProcessedEvent \<Rightarrow> error + ProcessedEvent" where
  "ProcessedEvent_init e =
     (case field_errors (provider_id e) (patient_id e) of
        [] \<Rightarrow> Inr e
      | errs \<Rightarrow> Inl (ValidationError errs))"

text \<open>
  The state the pipeline acts on: the store of dict objects with its allocation
  pointer, the log of \<open>encrypt_phi\<close> calls (the plaintext of each call), and the log
  of status entries written to the cache (key and expiry).
\<close>

record world =
  dicts :: "addr \<Rightarrow> pydict"
  next_addr :: addr
  encrypt_calls :: "string list"
  cache_sets :: "(string \<times> nat) list"

text \<open>
  The serialisation that is digested is \<open>event.model_dump_json()\<close>. It is a function of
  pydantic, not of this repository, and is modelled here from its documented
  behaviour: a compact JSON object with the fields of the model in declaration
  order, an enum as its value, \<open>None\<close> as \<open>null\<close>, a \<open>datetime\<close> as a string in ISO
  format (a parameter), and a dict with its items in insertion order. Strings are
  escaped as JSON requires: the quote, the backslash and the control characters.
\<close>

definition hex_digit :: "nat \<Rightarrow> char" where
  "hex_digit n = (if n < 10 then char_of (48 + n) else char_of (87 + n))"

definition escape_char :: "char \<Rightarrow> string" where
  "escape_char c =
     (if c = CHR 0x22 then [CHR 0x5C, CHR 0x22]
      else if c = CHR 0x5C then [CHR 0x5C, CHR 0x5C]
      else if c = CHR 0x08 then [CHR 0x5C, CHR ''b'']
      else if c = CHR 0x0C then [CHR 0x5C, CHR ''f'']
      else if c = CHR 0x0A then [CHR 0x5C, CHR ''n'']
      else if c = CHR 0x0D then [CHR 0x5C, CHR ''r'']
      else if c = CHR 0x09 then [CHR 0x5C, CHR ''t'']
      else if (of_char c :: nat) < 32
      then [CHR 0x5C, CHR ''u'', CHR ''0'', CHR ''0'',
            hex_digit (of_char c div 16), hex_digit (of_char c mod 16)]
      else [c])"

definition json_string :: "string \<Rightarrow> string" where
  "json_string s = CHR 0x22 # concat (map escape_char s) @ [CHR 0x22]"

fun digits :: "nat \<Rightarrow> string" where
  "digits n = (if n < 10 then [char_of (48 + n)] else digits (n div 10) @ [char_of (48 + n mod 10)])"

definition json_int :: "int \<Rightarrow> string" where
  "json_int i = (if i < 0 then CHR ''-'' # digits (nat (- i)) else digits (nat i))"

fun join :: "string list \<Rightarrow> string" where
  "join [] = []"
| "join [x] = x"
| "join (x # y # zs) = x @ '','' @ join (y # zs)"

fun json_value :: "py_value \<Rightarrow> string" where
  "json_value PyNone = ''null''"
| "json_value (PyBool b) = (if b then ''true'' else ''false'')"
| "json_value (PyInt i) = json_int i"
| "json_value (PyStr s) = json_string s"
| "json_value (PyList vs) = ''['' @ join (map json_value vs) @ '']''"
| "json_value (PyDict kvs) =
     ''{'' @ join (map (\<lambda>kv. json_string (fst kv) @ '':'' @ json_value (snd kv)) kvs) @ ''}''"

text \<open>The values that are not containers: \<open>None\<close>, a \<open>bool\<close>, an \<open>int\<close>, a \<open>str\<close>.\<close>

fun scalar :: "py_value \<Rightarrow> bool" where
  "scalar (PyList vs) = False"
| "scalar (PyDict kvs) = False"
| "scalar other = True"

definition json_field :: "string \<Rightarrow> string \<Rightarrow> string" where
  "json_field name text = json_string name @ '':'' @ text"

definition json_optional :: "string option \<Rightarrow> string" where
  "json_optional v = (case v of None \<Rightarrow> ''null'' | Some s \<Rightarrow> json_string s)"

fun EventSource_value :: "EventSource \<Rightarrow> string" where
  "EventSource_value EHR_EPIC = ''ehr_epic''"
| "EventSource_value EHR_CERNER = ''ehr_cerner''"
| "EventSource_value LAB_SYSTEM = ''lab_system''"
| "EventSource_value IOT_DEVICE = ''iot_device''"
| "EventSource_value MANUAL_ENTRY = ''manual_entry''"

definition metadata_json :: "EventMetadata \<Rightarrow> string" where
  "metadata_json m =
     ''{'' @ join [json_field ''source'' (json_string (EventSource_value (source m))),
                  json_field ''version'' (json_string (version m)),
                  json_field ''correlation_id'' (json_optional (correlation_id m)),
                  json_field ''retry_count'' (json_int (retry_count m))] @ ''}''"

definition model_dump_json :: "(datetime \<Rightarrow> string) \<Rightarrow> HealthcareEvent \<Rightarrow> pydict \<Rightarrow> string" where
  "model_dump_json fmt event payload_items =
     ''{'' @ join [json_field ''event_id'' (json_optional (event_id event)),
                  json_field ''event_type'' (json_string (EventType_value (event_type event))),
                  json_field ''timestamp'' (json_string (fmt (timestamp event))),
                  json_field ''provider_id'' (json_string (provider_id event)),
                  json_field ''patient_id'' (json_string (patient_id event)),
                  json_field ''facility_id'' (json_optional (facility_id event)),
                  json_field ''department'' (json_optional (department event)),
                  json_field ''payload'' (json_value (PyDict payload_items)),
                  json_field ''metadata'' (metadata_json (metadata event))] @ ''}''"

text \<open>The inverse of the escaping, used to show that it loses nothing.\<close>

definition hex_value :: "char \<Rightarrow> nat" where
  "hex_value c = (if (of_char c :: nat) < 58 then of_char c - 48 else of_char c - 87)"

definition unescape_short :: "char \<Rightarrow> char" where
  "unescape_short d =
     (if d = CHR ''b'' then CHR 0x08
      else if d = CHR ''f'' then CHR 0x0C
      else if d = CHR ''n'' then CHR 0x0A
      else if d = CHR ''r'' then CHR 0x0D
      else if d = CHR ''t'' then CHR 0x09
      else d)"

fun unescape :: "string \<Rightarrow> string" where
  "unescape [] = []"
| "unescape [c] = [c]"
| "unescape (c # d # cs) =
     (if c = CHR 0x5C
      then (if d = CHR ''u''
            then (case cs of
                    a # b # h # l # rest \<Rightarrow> char_of (16 * hex_value h + hex_value l) # unescape rest
                  | _ \<Rightarrow> [])
            else unescape_short d # unescape cs)
      else c # unescape (d # cs))"

text \<open>
  The collaborators of the processor. \<open>fernet_encrypt n data\<close> stands for
  \<open>base64.urlsafe_b64encode(self._cipher.encrypt(data.encode())).decode()\<close> at the
  \<open>n\<close>-th call of \<open>encrypt_phi\<close> (Fernet tokens depend on time and a random IV), \<open>None\<close>
  when it raises. \<open>sha256_hexdigest\<close> is \<open>hashlib.sha256(text.encode()).hexdigest()\<close>,
  \<open>isoformat\<close> is pydantic's rendering of a \<open>datetime\<close>, \<open>py_str\<close> is the builtin \<open>str\<close>,
  \<open>utcnow\<close> the clock.
\<close>

record EventProcessor =
  fernet_encrypt :: "nat \<Rightarrow> string \<Rightarrow> string option"
  current_key_id :: string
  sha256_hexdigest :: "string \<Rightarrow> string"
  isoformat :: "datetime \<Rightarrow> string"
  py_str :: "py_value \<Rightarrow> string"
  utcnow :: datetime

definition encrypt_phi :: "EventProcessor \<Rightarrow> string \<Rightarrow> world \<Rightarrow> (error + string) \<times> world" where
  "encrypt_phi ep data w =
     (let w' = w\<lparr>encrypt_calls := encrypt_calls w @ [data]\<rparr>
      in if data = [] then (Inr data, w')
         else (case fernet_encrypt ep (length (encrypt_calls w)) data of
                 None \<Rightarrow> (Inl EncryptionError, w')
               | Some c \<Rightarrow> (Inr c, w')))"

definition sensitive_fields :: "string list" where
  "sensitive_fields = [''ssn'', ''mrn'', ''dob'', ''address'', ''phone'',
                       ''email'', ''insurance_id'', ''diagnosis_code'']"

text \<open>The \<open>for field in sensitive_fields\<close> loop, on the dict at address \<open>a\<close>.\<close>

fun encrypt_fields ::
  "EventProcessor \<Rightarrow> addr \<Rightarrow> string list \<Rightarrow> world \<Rightarrow> (error + addr) \<times> world" where
  "encrypt_fields ep a [] w = (Inr a, w)"
| "encrypt_fields ep a (field # rest) w =
     (case map_of (dicts w a) field of
        None \<Rightarrow> encrypt_fields ep a rest w
      | Some v \<Rightarrow>
          (case encrypt_phi ep (py_str ep v) w of
             (Inl err, w') \<Rightarrow> (Inl err, w')
           | (Inr c, w') \<Rightarrow>
               encrypt_fields ep a rest
                 (w'\<lparr>dicts := (dicts w')(a := AList.update field (PyStr c) (dicts w' a))\<rparr>)))"

text \<open>\<open>payload.copy()\<close> allocates a new dict object with the same items.\<close>

definition dict_copy :: "addr \<Rightarrow> world \<Rightarrow> addr \<times> world" where
  "dict_copy a w =
     (next_addr w,
      w\<lparr>dicts := (dicts w)(next_addr w := dicts w a), next_addr := Suc (next_addr w)\<rparr>)"

definition encrypt_payload :: "EventProcessor \<Rightarrow> addr \<Rightarrow> world \<Rightarrow> (error + addr) \<times> world" where
  "encrypt_payload ep payload_ref w =
     (case dict_copy payload_ref w of
        (encrypted_payload, w') \<Rightarrow> encrypt_fields ep encrypted_payload sensitive_fields w')"

definition generate_checksum :: "EventProcessor \<Rightarrow> HealthcareEvent \<Rightarrow> world \<Rightarrow> string" where
  "generate_checksum ep event w =
     sha256_hexdigest ep (model_dump_json (isoformat ep) event (dicts w (payload event)))"

definition generate_partition_key :: "HealthcareEvent \<Rightarrow> string" where
  "generate_partition_key event = provider_id event @ '':'' @ EventType_value (event_type event)"

definition status_key :: "HealthcareEvent \<Rightarrow> string" where
  "status_key event =
     ''event:'' @ (case event_id event of None \<Rightarrow> ''None'' | Some i \<Rightarrow> i) @ '':status''"

definition process ::
  "EventProcessor \<Rightarrow> HealthcareEvent \<Rightarrow> world \<Rightarrow> (error + ProcessedEvent) \<times> world" where
  "process ep event w =
     (case encrypt_phi ep (patient_id event) w of
        (Inl err, w1) \<Rightarrow> (Inl err, w1)
      | (Inr encrypted_patient_id, w1) \<Rightarrow>
          (case encrypt_payload ep (payload event) w1 of
             (Inl err, w2) \<Rightarrow> (Inl err, w2)
           | (Inr encrypted_payload, w2) \<Rightarrow>
               (case ProcessedEvent_init
                       \<lparr> event_id = event_id event,
                         event_type = event_type event,
                         timestamp = timestamp event,
                         provider_id = provider_id event,
                         patient_id = encrypted_patient_id,
                         facility_id = facility_id event,
                         department = department event,
                         payload = encrypted_payload,
                         metadata = metadata event,
                         processed_at = utcnow ep,
                         encryption_key_id = Some (current_key_id ep),
                         checksum = Some (generate_checksum ep event w2),
                         partition_key = Some (generate_partition_key event) \<rparr> of
                  Inl err \<Rightarrow> (Inl err, w2)
                | Inr processed_event \<Rightarrow>
                    (Inr processed_event,
                     w2\<lparr>cache_sets := cache_sets w2 @ [(status_key event, 3600)]\<rparr>))))"

text \<open>
  The ingestion route (src/api/routes/events.py): the request body is parsed into a
  \<open>HealthcareEvent\<close>, which validates it, and the event is then processed.
\<close>

definition ingest_event ::
  "EventProcessor \<Rightarrow> HealthcareEvent \<Rightarrow> world \<Rightarrow> (error + ProcessedEvent) \<times> world" where
  "ingest_event ep body w =
     (case HealthcareEvent_init body of
        Inl err \<Rightarrow> (Inl err, w)
      | Inr event \<Rightarrow> process ep event w)"


section \<open>Stream consumer (src/services/kinesis_consumer.py)\<close>

record KinesisRecord =
  Data :: string
  SequenceNumber :: string

datatype handler_result = Handled | Raised string

datatype iterator_type = AFTER_SEQUENCE_NUMBER string | LATEST

datatype iterator_result =
    IteratorOk string
  | IteratorClientError string
  | IteratorOtherError string

datatype get_records_result =
    GetRecordsOk "KinesisRecord list" "string option"
  | GetRecordsClientError string
  | GetRecordsOtherError string

datatype consumer_effect =
    GetShardIterator string string iterator_type iterator_result
  | GetRecords string nat get_records_result
  | Invoke py_value
  | ConsumerSleep nat
  | ConsumerLog string string

text \<open>
  \<open>json_loads\<close> stands for \<open>json.loads(record['Data'].decode())\<close> (\<open>None\<close> when it raises),
  \<open>processor\<close> is the downstream handler, \<open>client_get_shard_iterator\<close> the transport call.
  As for the producer, a call of the transport returns, raises \<open>ClientError\<close> with an
  error code, or raises another exception.
\<close>

record KinesisConsumer =
  consumer_stream_name :: string
  json_loads :: "string \<Rightarrow> py_value option"
  processor :: "py_value \<Rightarrow> handler_result"
  client_get_shard_iterator :: "consumer_effect list \<Rightarrow> string \<Rightarrow> iterator_type \<Rightarrow> iterator_result"

record consumer_state =
  checkpoint_table :: "string \<rightharpoonup> string"
  effects :: "consumer_effect list"

definition emit :: "consumer_effect list \<Rightarrow> consumer_state \<Rightarrow> consumer_state" where
  "emit es st = st\<lparr>effects := effects st @ es\<rparr>"

text \<open>
  \<open>_get_shard_iterator\<close>. The test \<open>if checkpoint:\<close> is Python truthiness: it fails for
  \<open>None\<close> (no entry) and for the empty string.
\<close>

definition shard_iterator_type :: "consumer_state \<Rightarrow> string \<Rightarrow> iterator_type" where
  "shard_iterator_type st shard_id =
     (case checkpoint_table st shard_id of
        None \<Rightarrow> LATEST
      | Some checkpoint \<Rightarrow>
          (if checkpoint \<noteq> [] then AFTER_SEQUENCE_NUMBER checkpoint else LATEST))"

text \<open>The call of the client made by \<open>_get_shard_iterator\<close>, with the type chosen above.\<close>

definition get_shard_iterator ::
  "KinesisConsumer \<Rightarrow> string \<Rightarrow> consumer_state \<Rightarrow> iterator_result \<times> consumer_state" where
  "get_shard_iterator c shard_id st =
     (let ty = shard_iterator_type st shard_id;
          r = client_get_shard_iterator c (effects st) shard_id ty
      in (r, emit [GetShardIterator (consumer_stream_name c) shard_id ty r] st))"

text \<open>One pass of the body of the \<open>for record in records\<close> loop of \<open>_process_records\<close>.\<close>

definition process_record :: "KinesisConsumer \<Rightarrow> string \<Rightarrow> KinesisRecord \<Rightarrow> consumer_state \<Rightarrow> consumer_state" where
  "process_record c shard_id record st =
     (case json_loads c (Data record) of
        None \<Rightarrow> emit [ConsumerLog ''record_processing_error'' (SequenceNumber record)] st
      | Some data \<Rightarrow>
          (case processor c data of
             Handled \<Rightarrow>
               (emit [Invoke data] st)
                 \<lparr>checkpoint_table := (checkpoint_table st)(shard_id \<mapsto> SequenceNumber record)\<rparr>
           | Raised msg \<Rightarrow>
               emit [Invoke data, ConsumerLog ''record_processing_error'' (SequenceNumber record)] st))"

fun process_records_loop ::
  "KinesisConsumer \<Rightarrow> string \<Rightarrow> KinesisRecord list \<Rightarrow> consumer_state \<Rightarrow> consumer_state" where
  "process_records_loop c shard_id [] st = st"
| "process_records_loop c shard_id (record # rest) st =
     process_records_loop c shard_id rest (process_record c shard_id record st)"

definition process_records ::
  "KinesisConsumer \<Rightarrow> KinesisRecord list \<Rightarrow> string \<Rightarrow> consumer_state \<Rightarrow> consumer_state" where
  "process_records c records shard_id st =
     emit [ConsumerLog ''records_processed'' shard_id] (process_records_loop c shard_id records st)"

text \<open>
  The \<open>while self.running and iterator\<close> loop of \<open>_consume_shard\<close>. What the loop
  observes from outside is a list of ticks, one per evaluation of the loop head:
  the value of \<open>self.running\<close> then and the outcome of the \<open>get_records\<close> call made
  if the body runs. The loop may go on forever; a run over a finite list of ticks is
  a finite prefix of it. The loop catches \<open>ClientError\<close> only: the result holds the
  name of an exception that left it (any other exception of \<open>get_records\<close>, and any
  exception of \<open>_get_shard_iterator\<close>, which is called outside the \<open>try\<close> block), if
  any.
\<close>

record tick =
  running :: bool
  get_records :: get_records_result

fun consume_loop ::
  "KinesisConsumer \<Rightarrow> string \<Rightarrow> tick list \<Rightarrow> string option \<Rightarrow> consumer_state
     \<Rightarrow> string option \<times> consumer_state" where
  "consume_loop c shard_id [] iterator st = (None, st)"
| "consume_loop c shard_id (t # ts) None st = (None, st)"
| "consume_loop c shard_id (t # ts) (Some it) st =
     (if \<not> running t \<or> it = [] then (None, st)
      else
        (let st1 = emit [GetRecords it 100 (get_records t)] st
         in case get_records t of
              GetRecordsOk records next_iterator \<Rightarrow>
                (let st2 = (if records \<noteq> [] then process_records c records shard_id st1 else st1);
                     st3 = (if records = [] then emit [ConsumerSleep 1] st2 else st2)
                 in consume_loop c shard_id ts next_iterator st3)
            | GetRecordsClientError error_code \<Rightarrow>
                (if error_code = ''ExpiredIteratorException''
                 then (case get_shard_iterator c shard_id st1 of
                         (IteratorOk it', st2) \<Rightarrow> consume_loop c shard_id ts (Some it') st2
                       | (IteratorClientError code, st2) \<Rightarrow> (Some code, st2)
                       | (IteratorOtherError exn, st2) \<Rightarrow> (Some exn, st2))
                 else consume_loop c shard_id ts (Some it)
                        (emit [ConsumerLog ''shard_consume_error'' shard_id, ConsumerSleep 5] st1))
            | GetRecordsOtherError exn \<Rightarrow> (Some exn, st1)))"

definition consume_shard ::
  "KinesisConsumer \<Rightarrow> string \<Rightarrow> tick list \<Rightarrow> consumer_state \<Rightarrow> string option \<times> consumer_state" where
  "consume_shard c shard_id ticks st =
     (case get_shard_iterator c shard_id st of
        (IteratorOk it, st1) \<Rightarrow> consume_loop c shard_id ticks (Some it) st1
      | (IteratorClientError code, st1) \<Rightarrow> (Some code, st1)
      | (IteratorOtherError exn, st1) \<Rightarrow> (Some exn, st1))"

text \<open>Observers of the consumer's state and effects.\<close>

definition record_ok :: "KinesisConsumer \<Rightarrow> KinesisRecord \<Rightarrow> bool" where
  "record_ok c record =
     (case json_loads c (Data record) of
        None \<Rightarrow> False
      | Some data \<Rightarrow> processor c data = Handled)"

fun invoked :: "consumer_effect \<Rightarrow> py_value list" where
  "invoked (Invoke d) = [d]"
| "invoked other = []"

definition invocations :: "consumer_effect list \<Rightarrow> py_value list" where
  "invocations es = concat (map invoked es)"

definition decoded :: "KinesisConsumer \<Rightarrow> KinesisRecord list \<Rightarrow> py_value list" where
  "decoded c records =
     concat (map (\<lambda>r. case json_loads c (Data r) of None \<Rightarrow> [] | Some d \<Rightarrow> [d]) records)"

fun requested :: "consumer_effect \<Rightarrow> iterator_type list" where
  "requested (GetShardIterator s sh ty r) = [ty]"
| "requested other = []"

definition iterator_requests :: "consumer_effect list \<Rightarrow> iterator_type list" where
  "iterator_requests es = concat (map requested es)"

fun tick_records :: "tick \<Rightarrow> KinesisRecord list" where
  "tick_records t =
     (case get_records t of GetRecordsOk records next_iterator \<Rightarrow> records
                          | GetRecordsClientError code \<Rightarrow> []
                          | GetRecordsOtherError exn \<Rightarrow> [])"

text \<open>
  The position that corresponds to a checkpoint, the checkpoint of a shard after a
  batch of its records, and the check that, along a list of effects of one shard,
  every request for a shard iterator asks for the position of the checkpoint the
  shard has at that moment.
\<close>

definition position_for :: "string option \<Rightarrow> iterator_type" where
  "position_for checkpoint =
     (case checkpoint of None \<Rightarrow> LATEST | Some s \<Rightarrow> AFTER_SEQUENCE_NUMBER s)"

definition after_batch :: "KinesisConsumer \<Rightarrow> string option \<Rightarrow> KinesisRecord list \<Rightarrow> string option" where
  "after_batch c checkpoint records =
     (case filter (record_ok c) records of
        [] \<Rightarrow> checkpoint
      | zs \<Rightarrow> Some (SequenceNumber (last zs)))"

fun acquisitions_follow :: "KinesisConsumer \<Rightarrow> string option \<Rightarrow> consumer_effect list \<Rightarrow> bool" where
  "acquisitions_follow c checkpoint [] = True"
| "acquisitions_follow c checkpoint (GetRecords it n (GetRecordsOk records nxt) # es) =
     acquisitions_follow c (after_batch c checkpoint records) es"
| "acquisitions_follow c checkpoint (GetShardIterator s sh ty r # es) =
     (ty = position_for checkpoint \<and> acquisitions_follow c checkpoint es)"
| "acquisitions_follow c checkpoint (other # es) = acquisitions_follow c checkpoint es"

fun quiet :: "consumer_effect \<Rightarrow> bool" where
  "quiet (Invoke d) = True"
| "quiet (ConsumerSleep n) = True"
| "quiet (ConsumerLog a b) = True"
| "quiet other = False"

text \<open>
  Sequence numbers of the stream are decimal numerals, ordered by their value.
\<close>

definition seq_value :: "string \<Rightarrow> nat" where
  "seq_value s = foldl (\<lambda>n ch. 10 * n + (of_char ch - 48)) 0 s"

fun checkpoint_le :: "string option \<Rightarrow> string option \<Rightarrow> bool" where
  "checkpoint_le None b = True"
| "checkpoint_le (Some a) None = False"
| "checkpoint_le (Some a) (Some b) = (seq_value a \<le> seq_value b)"


section \<open>Sample values\<close>

text \<open>
  The event of the test suite (tests/test_events.py) and mock collaborators in the
  style of its mocks, used to run the definitions on concrete inputs.
\<close>

definition sample_payload :: pydict where
  "sample_payload = [(''visit_type'', PyStr ''routine_checkup''),
                     (''duration_minutes'', PyInt 30),
                     (''diagnosis_code'', PyStr ''I10'')]"

definition sample_event :: HealthcareEvent where
  "sample_event =
     \<lparr> event_id = Some ''evt-1'',
       event_type = PATIENT_VISIT,
       timestamp = 0,
       provider_id = ''PROV-001'',
       patient_id = ''PAT-12345'',
       facility_id = Some ''FAC-NYC-001'',
       department = Some ''cardiology'',
       payload = 0,
       metadata = \<lparr> source = EHR_EPIC, version = ''1.0'', correlation_id = None, retry_count = 0 \<rparr> \<rparr>"

definition sample_world :: world where
  "sample_world =
     \<lparr> dicts = (\<lambda>a. [])(0 := sample_payload), next_addr = 1, encrypt_calls = [], cache_sets = [] \<rparr>"

fun mock_str :: "py_value \<Rightarrow> string" where
  "mock_str (PyStr s) = s"
| "mock_str other = ''?''"

definition mock_isoformat :: "datetime \<Rightarrow> string" where
  "mock_isoformat t = ''2024-01-15T10:30:00''"

definition mock_processor :: EventProcessor where
  "mock_processor =
     \<lparr> fernet_encrypt = (\<lambda>n data. Some ''encrypted_value''),
       current_key_id = ''test-key-id'',
       sha256_hexdigest = (\<lambda>b. b),
       isoformat = mock_isoformat,
       py_str = mock_str,
       utcnow = 7 \<rparr>"

definition sample_processed :: ProcessedEvent where
  "sample_processed =
     \<lparr> event_id = Some ''evt-1'',
       event_type = PATIENT_VISIT,
       timestamp = 0,
       provider_id = ''PROV-001'',
       patient_id = ''encrypted_value'',
       facility_id = Some ''FAC-NYC-001'',
       department = Some ''cardiology'',
       payload = 1,
       metadata = \<lparr> source = EHR_EPIC, version = ''1.0'', correlation_id = None, retry_count = 0 \<rparr>,
       processed_at = 7,
       encryption_key_id = Some ''test-key-id'',
       checksum = Some (model_dump_json mock_isoformat sample_event sample_payload),
       partition_key = Some ''PROV-001:patient_visit'' \<rparr>"

definition mock_bytes :: "ProcessedEvent \<Rightarrow> string" where
  "mock_bytes e = (case event_id e of None \<Rightarrow> ''None'' | Some i \<Rightarrow> i) @ ''|'' @ patient_id e"

definition throttled_client :: kinesis_client where
  "throttled_client =
     \<lparr> client_put_record = (\<lambda>tr s d pk.
          if s = ''healthcare-events''
          then PutClientError ''ProvisionedThroughputExceededException''
          else PutOk ''shardId-000'' ''1''),
       client_put_records = (\<lambda>tr s recs. BatchClientError ''ProvisionedThroughputExceededException'') \<rparr>"

text \<open>A client that cannot reach the service: botocore raises \<open>EndpointConnectionError\<close>.\<close>

definition unreachable_client :: kinesis_client where
  "unreachable_client =
     \<lparr> client_put_record = (\<lambda>tr s d pk. PutOtherError ''EndpointConnectionError''),
       client_put_records = (\<lambda>tr s recs. BatchOtherError ''EndpointConnectionError'') \<rparr>"

definition denied_client :: kinesis_client where
  "denied_client =
     \<lparr> client_put_record = (\<lambda>tr s d pk. PutClientError ''AccessDeniedException''),
       client_put_records = (\<lambda>tr s recs. BatchClientError ''AccessDeniedException'') \<rparr>"

definition partial_client :: kinesis_client where
  "partial_client =
     \<lparr> client_put_record = (\<lambda>tr s d pk. PutOk ''shardId-000'' ''1''),
       client_put_records = (\<lambda>tr s recs.
          BatchOk \<lparr> FailedRecordCount = Some 1,
                    Records = [RecordOk ''shardId-000'' ''2'',
                               RecordError ''InternalFailure'' ''failed''] \<rparr>) \<rparr>"

definition mock_consumer :: KinesisConsumer where
  "mock_consumer =
     \<lparr> consumer_stream_name = ''healthcare-events'',
       json_loads = (\<lambda>b. if b = ''not json'' then None else Some (PyStr b)),
       processor = (\<lambda>d. if d = PyStr ''poison'' then Raised ''boom'' else Handled),
       client_get_shard_iterator = (\<lambda>es sh ty. IteratorOk ''iterator-0'') \<rparr>"

text \<open>The state of a consumer after \<open>__init__\<close>: \<open>self.checkpoint_table = {}\<close>.\<close>

definition empty_state :: consumer_state where
  "empty_state = \<lparr> checkpoint_table = Map.empty, effects = [] \<rparr>"


definition blank_patient_event :: HealthcareEvent where
  "blank_patient_event = sample_event\<lparr>patient_id := ''   ''\<rparr>"

definition long_provider_event :: HealthcareEvent where
  "long_provider_event = sample_event\<lparr>provider_id := replicate 51 (CHR ''A'')\<rparr>"

text \<open>The processor after a key rotation, and the sample store with another diagnosis code.\<close>

definition rotated_processor :: EventProcessor where
  "rotated_processor =
     mock_processor\<lparr>fernet_encrypt := (\<lambda>n data. Some ''rotated_value''), current_key_id := ''key-2''\<rparr>"

definition changed_payload :: pydict where
  "changed_payload = [(''visit_type'', PyStr ''routine_checkup''),
                      (''duration_minutes'', PyInt 30),
                      (''diagnosis_code'', PyStr ''E11'')]"

definition changed_world :: world where
  "changed_world = sample_world\<lparr>dicts := (dicts sample_world)(0 := changed_payload)\<rparr>"

text \<open>The sample payload with its items inserted in another order: the same dict.\<close>

definition reordered_payload :: pydict where
  "reordered_payload = [(''diagnosis_code'', PyStr ''I10''),
                        (''visit_type'', PyStr ''routine_checkup''),
                        (''duration_minutes'', PyInt 30)]"

definition reordered_world :: world where
  "reordered_world = sample_world\<lparr>dicts := (dicts sample_world)(0 := reordered_payload)\<rparr>"

definition second_processed :: ProcessedEvent where
  "second_processed = sample_processed\<lparr>event_id := Some ''evt-2''\<rparr>"

text \<open>Records, states and ticks for the consumer.\<close>

definition poison_record :: KinesisRecord where
  "poison_record = \<lparr> Data = ''poison'', SequenceNumber = ''101'' \<rparr>"

definition good_record :: KinesisRecord where
  "good_record = \<lparr> Data = ''good'', SequenceNumber = ''102'' \<rparr>"

definition record_5 :: KinesisRecord where
  "record_5 = \<lparr> Data = ''a'', SequenceNumber = ''5'' \<rparr>"

definition record_3 :: KinesisRecord where
  "record_3 = \<lparr> Data = ''b'', SequenceNumber = ''3'' \<rparr>"

definition state_100 :: consumer_state where
  "state_100 = \<lparr> checkpoint_table = [''shardId-000'' \<mapsto> ''100''], effects = [] \<rparr>"

definition sample_ticks :: "tick list" where
  "sample_ticks =
     [\<lparr> running = True, get_records = GetRecordsOk [poison_record, good_record] (Some ''iterator-1'') \<rparr>,
      \<lparr> running = True, get_records = GetRecordsClientError ''ExpiredIteratorException'' \<rparr>,
      \<lparr> running = False, get_records = GetRecordsOk [] None \<rparr>]"

section \<open>Evaluation of the pipeline on the sample event\<close>

lemmas sample_defs =
  process_def encrypt_phi_def encrypt_payload_def dict_copy_def sensitive_fields_def
  sample_event_def sample_world_def mock_processor_def sample_payload_def sample_processed_def
  ProcessedEvent_init_def field_errors_def id_field_ok_def strip_def isspace_def
  generate_checksum_def generate_partition_key_def status_key_def Let_def

lemma process_sample:
  "process mock_processor sample_event sample_world =
     (Inr sample_processed,
      \<lparr> dicts = ((\<lambda>a. [])(0 := sample_payload))
                  (1 := [(''visit_type'', PyStr ''routine_checkup''),
                         (''duration_minutes'', PyInt 30),
                         (''diagnosis_code'', PyStr ''encrypted_value'')]),
        next_addr = 2,
        encrypt_calls = [''PAT-12345'', ''I10''],
        cache_sets = [(''event:evt-1:status'', 3600)] \<rparr>)"
  by (simp add: sample_defs fun_upd_twist)

lemma process_rotated:
  "fst (process rotated_processor sample_event sample_world) =
     Inr (sample_processed\<lparr>patient_id := ''rotated_value'', encryption_key_id := Some ''key-2''\<rparr>)"
  by (simp add: sample_defs rotated_processor_def)

lemma process_changed:
  "fst (process mock_processor sample_event changed_world) =
     Inr (sample_processed\<lparr>checksum :=
        Some (model_dump_json mock_isoformat sample_event changed_payload)\<rparr>)"
  by (simp add: sample_defs changed_world_def changed_payload_def)

lemma process_reordered:
  "fst (process mock_processor sample_event reordered_world) =
     Inr (sample_processed\<lparr>checksum :=
        Some (model_dump_json mock_isoformat sample_event reordered_payload)\<rparr>)"
  by (simp add: sample_defs reordered_world_def reordered_payload_def)

lemma ProcessedEvent_init_Inr: "ProcessedEvent_init x = Inr r \<Longrightarrow> r = x"
  by (simp add: ProcessedEvent_init_def split: list.splits)

text \<open>What a successful run of \<open>process\<close> went through.\<close>

lemma process_InrD:
  assumes "process ep event w = (Inr r, w')"
  shows "\<exists>c w1 a w2.
           encrypt_phi ep (patient_id event) w = (Inr c, w1)
         \<and> encrypt_payload ep (payload event) w1 = (Inr a, w2)
         \<and> patient_id r = c \<and> payload r = a
         \<and> checksum r = Some (generate_checksum ep event w2)
         \<and> partition_key r = Some (generate_partition_key event)
         \<and> dicts w' = dicts w2 \<and> next_addr w' = next_addr w2"
  using assms
  by (auto simp: process_def split: prod.splits sum.splits dest!: ProcessedEvent_init_Inr)

section \<open>Partition key\<close>

text \<open>
  Claim C6. The partition key of every record that \<open>process\<close> produces is the provider
  identifier, a colon and the value of the event type. It depends on the event through
  these two fields only, so two events with the same provider and type get the same
  key; provider \<open>PROV-001\<close> with type \<open>lab_result\<close> gets \<open>PROV-001:lab_result\<close>.
\<close>

theorem partition_key_of_provider_and_type:
  "(process ep event w = (Inr r, w')
      \<longrightarrow> partition_key r = Some (provider_id event @ '':'' @ EventType_value (event_type event)))
   \<and> (provider_id e1 = provider_id e2 \<and> event_type e1 = event_type e2
      \<longrightarrow> generate_partition_key e1 = generate_partition_key e2)
   \<and> generate_partition_key (e\<lparr>provider_id := ''PROV-001'', event_type := LAB_RESULT\<rparr>)
       = ''PROV-001:lab_result''"
proof (intro conjI impI)
  assume "process ep event w = (Inr r, w')"
  from process_InrD [OF this]
  show "partition_key r = Some (provider_id event @ '':'' @ EventType_value (event_type event))"
    by (auto simp: generate_partition_key_def)
qed (simp_all add: generate_partition_key_def)

theorem partition_key_of_provider_and_type_witness:
  "(\<exists>w'. process mock_processor sample_event sample_world = (Inr sample_processed, w'))
   \<and> partition_key sample_processed = Some ''PROV-001:patient_visit''
   \<and> provider_id sample_event = provider_id (sample_event\<lparr>patient_id := ''PAT-2''\<rparr>)
   \<and> event_type sample_event = event_type (sample_event\<lparr>patient_id := ''PAT-2''\<rparr>)
   \<and> generate_partition_key sample_event
       = generate_partition_key (sample_event\<lparr>patient_id := ''PAT-2''\<rparr>)"
proof -
  note t = partition_key_of_provider_and_type
             [of mock_processor sample_event sample_world sample_processed _
                 sample_event "sample_event\<lparr>patient_id := ''PAT-2''\<rparr>" sample_event]
  have "partition_key sample_processed
          = Some (provider_id sample_event @ '':'' @ EventType_value (event_type sample_event))"
    using t process_sample by blast
  moreover have "generate_partition_key sample_event
       = generate_partition_key (sample_event\<lparr>patient_id := ''PAT-2''\<rparr>)"
    using t by simp
  ultimately show ?thesis
    using process_sample by (simp add: sample_event_def)
qed

section \<open>The store under the pipeline\<close>

lemma encrypt_phi_frame:
  "encrypt_phi ep d w = (x, w') \<Longrightarrow> dicts w' = dicts w \<and> next_addr w' = next_addr w"
  by (auto simp: encrypt_phi_def Let_def split: if_splits option.splits)

lemma encrypt_fields_frame:
  "encrypt_fields ep a fs w = (x, w') \<Longrightarrow>
     next_addr w' = next_addr w \<and> (\<forall>b. b \<noteq> a \<longrightarrow> dicts w' b = dicts w b)"
proof (induction fs arbitrary: w)
  case Nil
  then show ?case by simp
next
  case (Cons f fs)
  show ?case
  proof (cases "map_of (dicts w a) f")
    case None
    with Cons show ?thesis by simp
  next
    case (Some v)
    obtain y w1 where e: "encrypt_phi ep (py_str ep v) w = (y, w1)"
      by (cases "encrypt_phi ep (py_str ep v) w")
    note fr = encrypt_phi_frame [OF e]
    show ?thesis
    proof (cases y)
      case (Inl err)
      with Cons.prems Some e fr show ?thesis by simp
    next
      case (Inr c)
      let ?w2 = "w1\<lparr>dicts := (dicts w1)(a := AList.update f (PyStr c) (dicts w1 a))\<rparr>"
      from Cons.prems Some e Inr have "encrypt_fields ep a fs ?w2 = (x, w')" by simp
      from Cons.IH [OF this] fr show ?thesis by simp
    qed
  qed
qed

lemma encrypt_fields_other_keys:
  "encrypt_fields ep a fs w = (Inr x, w') \<Longrightarrow> k \<notin> set fs \<Longrightarrow>
     x = a \<and> map_of (dicts w' a) k = map_of (dicts w a) k"
proof (induction fs arbitrary: w)
  case Nil
  then show ?case by simp
next
  case (Cons f fs)
  show ?case
  proof (cases "map_of (dicts w a) f")
    case None
    with Cons show ?thesis by simp
  next
    case (Some v)
    obtain y w1 where e: "encrypt_phi ep (py_str ep v) w = (y, w1)"
      by (cases "encrypt_phi ep (py_str ep v) w")
    note fr = encrypt_phi_frame [OF e]
    show ?thesis
    proof (cases y)
      case (Inl err)
      with Cons.prems Some e show ?thesis by simp
    next
      case (Inr c)
      let ?w2 = "w1\<lparr>dicts := (dicts w1)(a := AList.update f (PyStr c) (dicts w1 a))\<rparr>"
      from Cons.prems Some e Inr have "encrypt_fields ep a fs ?w2 = (Inr x, w')" by simp
      from Cons.IH [OF this] Cons.prems(2) fr show ?thesis
        by (simp add: update_conv')
    qed
  qed
qed

lemma encrypt_payload_frame:
  assumes "encrypt_payload ep p w = (Inr a, w')"
  shows "a = next_addr w \<and> next_addr w' = Suc (next_addr w)
       \<and> (\<forall>b. b \<noteq> next_addr w \<longrightarrow> dicts w' b = dicts w b)
       \<and> (\<forall>k. k \<notin> set sensitive_fields \<longrightarrow> map_of (dicts w' a) k = map_of (dicts w p) k)"
proof -
  let ?w1 = "w\<lparr>dicts := (dicts w)(next_addr w := dicts w p), next_addr := Suc (next_addr w)\<rparr>"
  from assms have e: "encrypt_fields ep (next_addr w) sensitive_fields ?w1 = (Inr a, w')"
    by (simp add: encrypt_payload_def dict_copy_def)
  from encrypt_fields_frame [OF e] have f: "next_addr w' = Suc (next_addr w)"
      "\<forall>b. b \<noteq> next_addr w \<longrightarrow> dicts w' b = dicts w b"
    by simp_all
  have "a = next_addr w \<and> map_of (dicts w' (next_addr w)) k = map_of (dicts w p) k"
    if "k \<notin> set sensitive_fields" for k
    using encrypt_fields_other_keys [OF e that] by simp
  moreover have "a = next_addr w"
    using encrypt_fields_other_keys [OF e, of "''visit_type''"] by (simp add: sensitive_fields_def)
  ultimately show ?thesis using f by simp
qed

text \<open>The frame of a successful run.\<close>

lemma process_frame:
  assumes "process ep event w = (Inr r, w')"
  shows "payload r = next_addr w
       \<and> (\<forall>b. b \<noteq> next_addr w \<longrightarrow> dicts w' b = dicts w b)
       \<and> (\<forall>k. k \<notin> set sensitive_fields \<longrightarrow>
              map_of (dicts w' (payload r)) k = map_of (dicts w (payload event)) k)
       \<and> (\<exists>w2. checksum r = Some (generate_checksum ep event w2)
               \<and> (\<forall>b. b \<noteq> next_addr w \<longrightarrow> dicts w2 b = dicts w b))"
proof -
  from process_InrD [OF assms] obtain c w1 a w2 where
    p: "encrypt_phi ep (patient_id event) w = (Inr c, w1)"
    and q: "encrypt_payload ep (payload event) w1 = (Inr a, w2)"
    and r: "payload r = a" "checksum r = Some (generate_checksum ep event w2)"
           "dicts w' = dicts w2"
    by blast
  note f1 = encrypt_phi_frame [OF p]
  note f2 = encrypt_payload_frame [OF q]
  from f1 f2 r show ?thesis by auto
qed

lemma process_dicts_frame:
  assumes "process ep event w = (x, w')" "b \<noteq> next_addr w"
  shows "dicts w' b = dicts w b"
proof -
  obtain y w1 where p: "encrypt_phi ep (patient_id event) w = (y, w1)"
    by (cases "encrypt_phi ep (patient_id event) w")
  note f1 = encrypt_phi_frame [OF p]
  show ?thesis
  proof (cases y)
    case (Inl err)
    with assms p f1 show ?thesis by (simp add: process_def)
  next
    case (Inr c)
    obtain z w2 where q: "encrypt_payload ep (payload event) w1 = (z, w2)"
      by (cases "encrypt_payload ep (payload event) w1")
    then have "encrypt_fields ep (next_addr w1) sensitive_fields
                 (w1\<lparr>dicts := (dicts w1)(next_addr w1 := dicts w1 (payload event)),
                     next_addr := Suc (next_addr w1)\<rparr>) = (z, w2)"
      by (simp add: encrypt_payload_def dict_copy_def)
    from encrypt_fields_frame [OF this] f1 assms(2) have f2: "dicts w2 b = dicts w b"
      by simp
    from assms(1) p q Inr have "dicts w' = dicts w2"
      by (auto simp: process_def split: sum.splits)
    with f2 show ?thesis by simp
  qed
qed


section \<open>Integrity checksum\<close>

text \<open>
  The escaping of a JSON string loses nothing: \<open>unescape\<close> reads the string back, so two strings
  with the same JSON text are equal.
\<close>

lemma hex_value_digit: "n < 16 \<Longrightarrow> hex_value (hex_digit n) = n"
  by (simp add: hex_value_def hex_digit_def)

lemma char_of_code: "char_of (of_char c :: nat) = c"
  by simp

lemma control_code:
  "(of_char c :: nat) < 32 \<Longrightarrow>
   char_of (16 * hex_value (hex_digit (of_char c div 16)) + hex_value (hex_digit (of_char c mod 16))) = c"
proof -
  assume a: "(of_char c :: nat) < 32"
  then have "of_char c div 16 < (16::nat)" "of_char c mod 16 < (16::nat)" by simp_all
  then have "16 * hex_value (hex_digit (of_char c div 16)) + hex_value (hex_digit (of_char c mod 16))
          = (of_char c :: nat)"
    by (simp add: hex_value_digit)
  then show ?thesis by simp
qed

lemma plain_not_backslash:
  "escape_char c = [c] \<Longrightarrow> c \<noteq> CHR 0x5C"
  by (auto simp: escape_char_def split: if_splits)

lemma unescape_plain: "c \<noteq> CHR 0x5C \<Longrightarrow> unescape (c # r) = c # unescape r"
  by (cases r) simp_all

lemma unescape_escape_char: "unescape (escape_char c @ r) = c # unescape r"
proof (cases "(of_char c :: nat) < 32")
  case True
  show ?thesis
    using True control_code [OF True]
    by (simp add: escape_char_def unescape_short_def)
next
  case False
  then have "c \<noteq> CHR 0x08" "c \<noteq> CHR 0x0C" "c \<noteq> CHR 0x0A" "c \<noteq> CHR 0x0D" "c \<noteq> CHR 0x09"
    by auto
  then show ?thesis
    using False by (auto simp: escape_char_def unescape_short_def unescape_plain)
qed

lemma unescape_escape: "unescape (concat (map escape_char s)) = s"
  by (induction s) (simp_all add: unescape_escape_char)

lemma json_string_inj: "json_string s = json_string s' \<Longrightarrow> s = s'"
proof -
  assume "json_string s = json_string s'"
  then have "concat (map escape_char s) = concat (map escape_char s')"
    by (simp add: json_string_def)
  then have "unescape (concat (map escape_char s)) = unescape (concat (map escape_char s'))"
    by simp
  then show ?thesis by (simp add: unescape_escape)
qed


text \<open>
  The decimal numeral of an integer determines it, and the JSON texts of \<open>null\<close>, of the
  booleans, of the integers and of the strings are pairwise different.
\<close>

lemma digits_small: "n < 10 \<Longrightarrow> digits n = [char_of (48 + n)]"
  by (subst digits.simps) (simp del: digits.simps)

lemma digits_big: "\<not> n < 10 \<Longrightarrow> digits n = digits (n div 10) @ [char_of (48 + n mod 10)]"
  by (subst digits.simps) (simp del: digits.simps)

lemma digit_code: "k < 10 \<Longrightarrow> (of_char (char_of (48 + k)) :: nat) = 48 + k"
  by simp

lemma digits_nonempty: "digits n \<noteq> []"
proof (cases "n < 10")
  case True
  then have "digits n = [char_of (48 + n)]" by (rule digits_small)
  then show ?thesis by (simp del: digits.simps)
next
  case False
  then have "digits n = digits (n div 10) @ [char_of (48 + n mod 10)]" by (rule digits_big)
  then show ?thesis by (simp del: digits.simps)
qed

lemma digits_chars:
  "c \<in> set (digits n) \<Longrightarrow> 48 \<le> (of_char c :: nat) \<and> (of_char c :: nat) \<le> 57"
proof (induction n rule: digits.induct)
  case (1 n)
  show ?case
  proof (cases "n < 10")
    case True
    then have "digits n = [char_of (48 + n)]" by (rule digits_small)
    with "1.prems" have "c = char_of (48 + n)" by (simp del: digits.simps)
    with digit_code [OF True] True show ?thesis by (simp del: digits.simps)
  next
    case False
    then have "digits n = digits (n div 10) @ [char_of (48 + n mod 10)]" by (rule digits_big)
    with "1.prems" have "c \<in> set (digits (n div 10)) \<or> c = char_of (48 + n mod 10)"
      by (auto simp del: digits.simps)
    then show ?thesis
    proof
      assume "c \<in> set (digits (n div 10))"
      with "1.IH" False show ?thesis by blast
    next
      assume c: "c = char_of (48 + n mod 10)"
      have "n mod 10 < 10" by simp
      then have "(of_char (char_of (48 + n mod 10)) :: nat) = 48 + n mod 10" by (rule digit_code)
      moreover have "n mod 10 \<le> 9" by simp
      ultimately show ?thesis using c by (simp del: digits.simps)
    qed
  qed
qed

lemma digits_value: "foldl (\<lambda>a c. 10 * a + ((of_char c :: nat) - 48)) 0 (digits n) = n"
proof (induction n rule: digits.induct)
  case (1 n)
  show ?case
  proof (cases "n < 10")
    case True
    then have "(of_char (char_of (48 + n)) :: nat) = 48 + n" by (rule digit_code)
    moreover from True have "digits n = [char_of (48 + n)]" by (rule digits_small)
    ultimately show ?thesis by (simp del: digits.simps)
  next
    case False
    have "n mod 10 < 10" by simp
    then have d: "(of_char (char_of (48 + n mod 10)) :: nat) = 48 + n mod 10" by (rule digit_code)
    from False "1.IH"
    have ih: "foldl (\<lambda>a c. 10 * a + ((of_char c :: nat) - 48)) 0 (digits (n div 10)) = n div 10"
      by blast
    from False have e: "digits n = digits (n div 10) @ [char_of (48 + n mod 10)]"
      by (rule digits_big)
    have "foldl (\<lambda>a c. 10 * a + ((of_char c :: nat) - 48)) 0 (digits n)
            = 10 * (n div 10) + ((of_char (char_of (48 + n mod 10)) :: nat) - 48)"
      by (simp only: e foldl_append foldl.simps ih)
    also have "\<dots> = n" by (simp only: d) simp
    finally show ?thesis .
  qed
qed

lemma digits_inj: "digits n = digits m \<Longrightarrow> n = m"
proof -
  assume "digits n = digits m"
  then have "foldl (\<lambda>a c. 10 * a + ((of_char c :: nat) - 48)) 0 (digits n)
           = foldl (\<lambda>a c. 10 * a + ((of_char c :: nat) - 48)) 0 (digits m)"
    by (rule arg_cong)
  then show "n = m" by (simp only: digits_value)
qed

lemma digits_no_sign: "CHR ''-'' # s \<noteq> digits n"
proof
  assume a: "CHR ''-'' # s = digits n"
  have "CHR ''-'' \<in> set (CHR ''-'' # s)" by simp
  then have "CHR ''-'' \<in> set (digits n)" by (simp only: a)
  then have "48 \<le> (of_char (CHR ''-'') :: nat) \<and> (of_char (CHR ''-'') :: nat) \<le> 57"
    by (rule digits_chars)
  then show False by simp
qed

lemma json_int_inj: "json_int i = json_int j \<Longrightarrow> i = j"
proof -
  assume a: "json_int i = json_int j"
  show ?thesis
  proof (cases "i < 0")
    case True
    show ?thesis
    proof (cases "j < 0")
      case jn: True
      with True a have "digits (nat (- i)) = digits (nat (- j))"
        by (simp add: json_int_def del: digits.simps)
      then have "nat (- i) = nat (- j)" by (rule digits_inj)
      with True jn show ?thesis by (simp del: digits.simps)
    next
      case False
      with True a have "CHR ''-'' # digits (nat (- i)) = digits (nat j)"
        by (simp add: json_int_def del: digits.simps)
      with digits_no_sign show ?thesis by blast
    qed
  next
    case False
    show ?thesis
    proof (cases "j < 0")
      case True
      with False a have "CHR ''-'' # digits (nat (- j)) = digits (nat i)"
        by (simp add: json_int_def del: digits.simps)
      with digits_no_sign show ?thesis by blast
    next
      case jp: False
      with False a have "digits (nat i) = digits (nat j)"
        by (simp add: json_int_def del: digits.simps)
      then have "nat i = nat j" by (rule digits_inj)
      with False jp show ?thesis by (simp del: digits.simps)
    qed
  qed
qed

lemma json_int_first:
  "\<exists>c s. json_int i = c # s
     \<and> (c = CHR ''-'' \<or> 48 \<le> (of_char c :: nat) \<and> (of_char c :: nat) \<le> 57)"
proof (cases "i < 0")
  case True
  then show ?thesis by (simp add: json_int_def del: digits.simps)
next
  case False
  obtain c s where d: "digits (nat i) = c # s"
    using digits_nonempty [of "nat i"] by (cases "digits (nat i)") blast+
  have "c \<in> set (c # s)" by simp
  then have "c \<in> set (digits (nat i))" by (simp only: d)
  then have "48 \<le> (of_char c :: nat) \<and> (of_char c :: nat) \<le> 57" by (rule digits_chars)
  with d False show ?thesis by (simp add: json_int_def del: digits.simps)
qed

lemma json_int_not_string: "json_int i \<noteq> json_string s"
proof
  assume a: "json_int i = json_string s"
  obtain c r where f: "json_int i = c # r"
      "c = CHR ''-'' \<or> 48 \<le> (of_char c :: nat) \<and> (of_char c :: nat) \<le> 57"
    using json_int_first by blast
  from a f(1) have "c = CHR 0x22" by (simp add: json_string_def del: digits.simps)
  with f(2) show False by simp
qed

lemma json_int_not_word: "json_int i \<noteq> ''null''" "json_int i \<noteq> ''true''" "json_int i \<noteq> ''false''"
proof -
  obtain c r where f: "json_int i = c # r"
      "c = CHR ''-'' \<or> 48 \<le> (of_char c :: nat) \<and> (of_char c :: nat) \<le> 57"
    using json_int_first by blast
  from f(2) have "c \<noteq> CHR ''n''" "c \<noteq> CHR ''t''" "c \<noteq> CHR ''f''" by auto
  with f(1) show "json_int i \<noteq> ''null''" "json_int i \<noteq> ''true''" "json_int i \<noteq> ''false''"
    by (simp_all del: digits.simps)
qed

lemma json_string_not_word:
  "json_string s \<noteq> ''null''" "json_string s \<noteq> ''true''" "json_string s \<noteq> ''false''"
  by (simp_all add: json_string_def)

lemmas json_scalar_distinct =
  json_int_not_word json_int_not_word [symmetric]
  json_string_not_word json_string_not_word [symmetric]
  json_int_not_string json_int_not_string [symmetric]

lemma json_int_eq: "json_int i = json_int j \<longleftrightarrow> i = j"
  using json_int_inj by blast

lemma json_string_eq: "json_string s = json_string s' \<longleftrightarrow> s = s'"
  using json_string_inj by blast

lemma json_value_scalar_inj:
  assumes "scalar v" "scalar v'" "json_value v = json_value v'"
  shows "v = v'"
  using assms
  by (cases v; cases v')
     (simp_all add: json_scalar_distinct json_int_eq json_string_eq del: digits.simps
        split: if_splits)

lemma join_from: "join (x # xs) = x @ concat (map (\<lambda>y. '','' @ y) xs)"
  by (induction xs arbitrary: x) simp_all

lemma join_middle:
  "join (xs @ a # ys) = concat (map (\<lambda>x. x @ '','') xs) @ a @ concat (map (\<lambda>y. '','' @ y) ys)"
proof (induction xs)
  case Nil
  then show ?case by (simp add: join_from)
next
  case (Cons x xs)
  then show ?case by (cases xs) (simp_all add: join_from)
qed

text \<open>The serialisation of an event is a fixed text around the serialisation of its payload.\<close>

lemma model_dump_json_around_payload:
  "\<exists>before after. \<forall>d. model_dump_json fmt e d = before @ json_value (PyDict d) @ after"
proof -
  let ?before = "''{'' @ json_field ''event_id'' (json_optional (event_id e)) @ '',''
      @ json_field ''event_type'' (json_string (EventType_value (event_type e))) @ '',''
      @ json_field ''timestamp'' (json_string (fmt (timestamp e))) @ '',''
      @ json_field ''provider_id'' (json_string (provider_id e)) @ '',''
      @ json_field ''patient_id'' (json_string (patient_id e)) @ '',''
      @ json_field ''facility_id'' (json_optional (facility_id e)) @ '',''
      @ json_field ''department'' (json_optional (department e)) @ '',''
      @ json_string ''payload'' @ '':''"
  let ?after = "'','' @ json_field ''metadata'' (metadata_json (metadata e)) @ ''}''"
  have "model_dump_json fmt e d = ?before @ json_value (PyDict d) @ ?after" for d
    by (simp add: model_dump_json_def json_field_def)
  then show ?thesis by blast
qed

text \<open>The serialisation of a dict is a fixed text around the serialisation of one value.\<close>

lemma json_dict_around_value:
  "\<exists>before after. \<forall>v. json_value (PyDict (xs @ (k, v) # ys)) = before @ json_value v @ after"
proof -
  let ?item = "\<lambda>kv. json_string (fst kv) @ '':'' @ json_value (snd kv)"
  let ?before = "''{'' @ concat (map (\<lambda>x. x @ '','') (map ?item xs)) @ json_string k @ '':''"
  let ?after = "concat (map (\<lambda>y. '','' @ y) (map ?item ys)) @ ''}''"
  have "json_value (PyDict (xs @ (k, v) # ys)) = ?before @ json_value v @ ?after" for v
    using join_middle [of "map ?item xs" "?item (k, v)" "map ?item ys"] by simp
  then show ?thesis by blast
qed

lemma model_dump_json_value_change:
  "model_dump_json fmt e (xs @ (k, v) # ys) = model_dump_json fmt e (xs @ (k, v') # ys)
     \<longleftrightarrow> json_value v = json_value v'"
proof -
  obtain b1 a1 where m: "\<forall>d. model_dump_json fmt e d = b1 @ json_value (PyDict d) @ a1"
    using model_dump_json_around_payload by blast
  obtain b2 a2 where d: "\<forall>v. json_value (PyDict (xs @ (k, v) # ys)) = b2 @ json_value v @ a2"
    using json_dict_around_value by blast
  have "model_dump_json fmt e (xs @ (k, u) # ys) = b1 @ (b2 @ json_value u @ a2) @ a1" for u
    by (simp only: m d)
  then show ?thesis by simp
qed

lemma checksum_of_original:
  assumes "process ep event w = (Inr r, w')" "payload event < next_addr w"
  shows "checksum r = Some (sha256_hexdigest ep
           (model_dump_json (isoformat ep) event (dicts w (payload event))))"
  using process_frame [OF assms(1)] assms(2) by (auto simp: generate_checksum_def)

text \<open>
  Claim C1, amended. The checksum of a processed event is the digest of the JSON serialisation
  of the original event, as it was before any field was encrypted: the fields in the order of
  their declaration, the items of the payload in the order of their insertion, the payload read
  from the store in which \<open>process\<close> started. Hence (1) the checksum of a successful run is that
  digest; (2) two runs on the same event with the same payload items in the same order give the
  same checksum, whatever cipher and key each run encrypts with; (3) when the value of one
  payload item is replaced by a value with another JSON text, the serialisation that is digested
  is another one, so that the two checksums can only be equal if the digest takes the same value
  on two different texts; (4) two different values that are not containers (\<open>None\<close>, a
  \<open>bool\<close>, an \<open>int\<close>, a \<open>str\<close>) have different JSON texts, so that (3) applies to every change
  of such a value. The digest itself is a parameter: nothing is assumed of SHA-256.
\<close>

theorem checksum_over_original_event:
  "(process ep event w = (Inr r, w') \<and> payload event < next_addr w
      \<longrightarrow> checksum r = Some (sha256_hexdigest ep
             (model_dump_json (isoformat ep) event (dicts w (payload event)))))
   \<and> (process ep event w = (Inr r, w') \<and> payload event < next_addr w
      \<and> process ep2 event w2 = (Inr r2, w2') \<and> payload event < next_addr w2
      \<and> sha256_hexdigest ep2 = sha256_hexdigest ep \<and> isoformat ep2 = isoformat ep
      \<and> dicts w2 (payload event) = dicts w (payload event)
      \<longrightarrow> checksum r2 = checksum r)
   \<and> (process ep event w = (Inr r, w') \<and> payload event < next_addr w
      \<and> process ep event w3 = (Inr r3, w3') \<and> payload event < next_addr w3
      \<and> dicts w (payload event) = xs @ (k, v) # ys
      \<and> dicts w3 (payload event) = xs @ (k, v') # ys
      \<and> json_value v' \<noteq> json_value v
      \<longrightarrow> model_dump_json (isoformat ep) event (dicts w3 (payload event))
            \<noteq> model_dump_json (isoformat ep) event (dicts w (payload event))
        \<and> (checksum r3 = checksum r
            \<longrightarrow> sha256_hexdigest ep (model_dump_json (isoformat ep) event (dicts w3 (payload event)))
                = sha256_hexdigest ep (model_dump_json (isoformat ep) event (dicts w (payload event)))))
   \<and> (scalar u \<and> scalar u' \<and> json_value u = json_value u' \<longrightarrow> u = u')"
proof (intro conjI impI)
  assume "process ep event w = (Inr r, w') \<and> payload event < next_addr w"
  then show "checksum r = Some (sha256_hexdigest ep
             (model_dump_json (isoformat ep) event (dicts w (payload event))))"
    using checksum_of_original by blast
next
  assume a: "process ep event w = (Inr r, w') \<and> payload event < next_addr w
      \<and> process ep2 event w2 = (Inr r2, w2') \<and> payload event < next_addr w2
      \<and> sha256_hexdigest ep2 = sha256_hexdigest ep \<and> isoformat ep2 = isoformat ep
      \<and> dicts w2 (payload event) = dicts w (payload event)"
  then have "checksum r = Some (sha256_hexdigest ep
             (model_dump_json (isoformat ep) event (dicts w (payload event))))"
    using checksum_of_original by blast
  moreover from a have "checksum r2 = Some (sha256_hexdigest ep2
             (model_dump_json (isoformat ep2) event (dicts w2 (payload event))))"
    using checksum_of_original by blast
  ultimately show "checksum r2 = checksum r" using a by simp
next
  assume a: "process ep event w = (Inr r, w') \<and> payload event < next_addr w
      \<and> process ep event w3 = (Inr r3, w3') \<and> payload event < next_addr w3
      \<and> dicts w (payload event) = xs @ (k, v) # ys
      \<and> dicts w3 (payload event) = xs @ (k, v') # ys
      \<and> json_value v' \<noteq> json_value v"
  then show "model_dump_json (isoformat ep) event (dicts w3 (payload event))
            \<noteq> model_dump_json (isoformat ep) event (dicts w (payload event))"
    by (simp add: model_dump_json_value_change)
  from a have "checksum r = Some (sha256_hexdigest ep
             (model_dump_json (isoformat ep) event (dicts w (payload event))))"
    using checksum_of_original by blast
  moreover from a have "checksum r3 = Some (sha256_hexdigest ep
             (model_dump_json (isoformat ep) event (dicts w3 (payload event))))"
    using checksum_of_original by blast
  moreover assume "checksum r3 = checksum r"
  ultimately show "sha256_hexdigest ep (model_dump_json (isoformat ep) event (dicts w3 (payload event)))
                = sha256_hexdigest ep (model_dump_json (isoformat ep) event (dicts w (payload event)))"
    by simp
next
  assume "scalar u \<and> scalar u' \<and> json_value u = json_value u'"
  then show "u = u'" using json_value_scalar_inj by blast
qed

theorem checksum_over_original_event_witness:
  "(\<exists>w' r2 w2' r3 w3'.
      process mock_processor sample_event sample_world = (Inr sample_processed, w')
    \<and> payload sample_event < next_addr sample_world
    \<and> checksum sample_processed
        = Some (model_dump_json mock_isoformat sample_event sample_payload)
    \<and> process rotated_processor sample_event sample_world = (Inr r2, w2')
    \<and> patient_id r2 \<noteq> patient_id sample_processed
    \<and> checksum r2 = checksum sample_processed
    \<and> process mock_processor sample_event changed_world = (Inr r3, w3')
    \<and> json_value (PyStr ''E11'') \<noteq> json_value (PyStr ''I10'')
    \<and> model_dump_json mock_isoformat sample_event changed_payload
        \<noteq> model_dump_json mock_isoformat sample_event sample_payload
    \<and> checksum r3 \<noteq> checksum sample_processed)"
proof -
  let ?r2 = "sample_processed\<lparr>patient_id := ''rotated_value'', encryption_key_id := Some ''key-2''\<rparr>"
  let ?r3 = "sample_processed\<lparr>checksum :=
        Some (model_dump_json mock_isoformat sample_event changed_payload)\<rparr>"
  let ?xs = "[(''visit_type'', PyStr ''routine_checkup''), (''duration_minutes'', PyInt 30)]"
  obtain w' where p1: "process mock_processor sample_event sample_world = (Inr sample_processed, w')"
    using process_sample by simp
  obtain w2' where p2: "process rotated_processor sample_event sample_world = (Inr ?r2, w2')"
    using process_rotated by (cases "process rotated_processor sample_event sample_world") simp
  obtain w3' where p3: "process mock_processor sample_event changed_world = (Inr ?r3, w3')"
    using process_changed by (cases "process mock_processor sample_event changed_world") simp
  have h: "payload sample_event < next_addr sample_world"
          "payload sample_event < next_addr changed_world"
    by (simp_all add: sample_event_def sample_world_def changed_world_def)
  have same: "sha256_hexdigest rotated_processor = sha256_hexdigest mock_processor"
       "isoformat rotated_processor = isoformat mock_processor"
    by (simp_all add: rotated_processor_def)
  have items: "dicts sample_world (payload sample_event) = ?xs @ (''diagnosis_code'', PyStr ''I10'') # []"
      "dicts changed_world (payload sample_event) = ?xs @ (''diagnosis_code'', PyStr ''E11'') # []"
    by (simp_all add: sample_world_def changed_world_def sample_event_def sample_payload_def
          changed_payload_def)
  note t = checksum_over_original_event
             [of mock_processor sample_event sample_world sample_processed w'
                 rotated_processor sample_world ?r2 w2' changed_world ?r3 w3'
                 ?xs "''diagnosis_code''" "PyStr ''I10''" "[]" "PyStr ''E11''"
                 "PyStr ''E11''" "PyStr ''I10''"]
  from t have inj: "scalar (PyStr ''E11'') \<and> scalar (PyStr ''I10'')
      \<and> json_value (PyStr ''E11'') = json_value (PyStr ''I10'') \<longrightarrow> PyStr ''E11'' = PyStr ''I10''"
    by blast
  then have ne: "json_value (PyStr ''E11'') \<noteq> json_value (PyStr ''I10'')"
    by auto
  from t p1 h(1) have c1: "checksum sample_processed = Some (sha256_hexdigest mock_processor
          (model_dump_json (isoformat mock_processor) sample_event
             (dicts sample_world (payload sample_event))))"
    by blast
  from t p1 p2 h(1) same have c2: "checksum ?r2 = checksum sample_processed"
    by blast
  from t p1 p3 h items ne have c3:
    "model_dump_json (isoformat mock_processor) sample_event (dicts changed_world (payload sample_event))
       \<noteq> model_dump_json (isoformat mock_processor) sample_event
            (dicts sample_world (payload sample_event))"
    by blast
  have iso: "isoformat mock_processor = mock_isoformat"
    by (simp add: mock_processor_def)
  have d: "dicts sample_world (payload sample_event) = sample_payload"
       "dicts changed_world (payload sample_event) = changed_payload"
    by (simp_all add: sample_world_def changed_world_def sample_event_def)
  from c3 have c3': "model_dump_json mock_isoformat sample_event changed_payload
        \<noteq> model_dump_json mock_isoformat sample_event sample_payload"
    by (simp add: iso d)
  have v: "checksum sample_processed
        = Some (model_dump_json mock_isoformat sample_event sample_payload)"
    by (simp add: sample_processed_def)
  have c4: "checksum ?r3 \<noteq> checksum sample_processed"
    using c3' by (simp add: sample_processed_def)
  have pid: "patient_id ?r2 \<noteq> patient_id sample_processed"
    by (simp add: sample_processed_def)
  from p1 h(1) v p2 pid c2 p3 ne c3' c4 show ?thesis by blast
qed

text \<open>
  The serialisation is deterministic but it is not canonical: the same payload dict with its
  items inserted in another order is the same logical event (the two dicts are equal in Python,
  they map every key to the same value), and it gets another serialisation and so another
  checksum. With the identity in the place of the digest the two checksums differ.
\<close>

lemma reordered_same_dict: "map_of reordered_payload = map_of sample_payload"
  by (rule ext) (simp add: reordered_payload_def sample_payload_def)

lemma reordered_other_text:
  "json_value (PyDict reordered_payload) \<noteq> json_value (PyDict sample_payload)"
  by code_simp

theorem reordered_payload_counterexample:
  "map_of reordered_payload = map_of sample_payload
   \<and> model_dump_json mock_isoformat sample_event reordered_payload
       \<noteq> model_dump_json mock_isoformat sample_event sample_payload
   \<and> fst (process mock_processor sample_event sample_world) = Inr sample_processed
   \<and> fst (process mock_processor sample_event reordered_world)
       = Inr (sample_processed\<lparr>checksum :=
           Some (model_dump_json mock_isoformat sample_event reordered_payload)\<rparr>)
   \<and> checksum sample_processed
       = Some (model_dump_json mock_isoformat sample_event sample_payload)"
proof -
  obtain b a where m: "\<forall>d. model_dump_json mock_isoformat sample_event d
                            = b @ json_value (PyDict d) @ a"
    using model_dump_json_around_payload by blast
  have "model_dump_json mock_isoformat sample_event reordered_payload
       \<noteq> model_dump_json mock_isoformat sample_event sample_payload"
    using reordered_other_text by (simp add: m)
  then show ?thesis
    using reordered_same_dict process_sample process_reordered
    by (simp add: sample_processed_def)
qed


section \<open>The input of the pipeline is left unchanged\<close>

text \<open>
  Claim C10. \<open>process\<close> reads the attributes of its event and assigns none of them, so
  the event is a value here; the object it could mutate is the payload dict, which
  lives in the store. Whatever the outcome of \<open>process\<close>, every dict object that existed
  before the call has its items unchanged. After a successful run the payload of the
  input holds its original items, the payload of the record is a dict allocated by
  the call, and every key outside the list of sensitive fields maps in it to what it
  maps to in the input.
\<close>

theorem process_leaves_input_unchanged:
  "(process ep event w = (x, w') \<longrightarrow> (\<forall>a < next_addr w. dicts w' a = dicts w a))
   \<and> (process ep event w = (Inr r, w') \<and> payload event < next_addr w
     \<longrightarrow> dicts w' (payload event) = dicts w (payload event)
       \<and> payload r = next_addr w \<and> payload r \<noteq> payload event
       \<and> (\<forall>k. k \<notin> set sensitive_fields
              \<longrightarrow> map_of (dicts w' (payload r)) k = map_of (dicts w (payload event)) k))"
proof (intro conjI impI)
  assume "process ep event w = (x, w')"
  then show "\<forall>a < next_addr w. dicts w' a = dicts w a"
    using process_dicts_frame by fastforce
next
  assume a: "process ep event w = (Inr r, w') \<and> payload event < next_addr w"
  then have p: "process ep event w = (Inr r, w')" by simp
  from process_frame [OF p] a
  show "dicts w' (payload event) = dicts w (payload event)" "payload r = next_addr w"
     "payload r \<noteq> payload event"
     "\<forall>k. k \<notin> set sensitive_fields
              \<longrightarrow> map_of (dicts w' (payload r)) k = map_of (dicts w (payload event)) k"
    by auto
qed

theorem process_leaves_input_unchanged_witness:
  "(\<exists>w'. process mock_processor sample_event sample_world = (Inr sample_processed, w')
        \<and> payload sample_event < next_addr sample_world
        \<and> (\<forall>a < next_addr sample_world. dicts w' a = dicts sample_world a)
        \<and> dicts w' 0 = sample_payload
        \<and> payload sample_processed = 1
        \<and> ''visit_type'' \<notin> set sensitive_fields
        \<and> map_of (dicts w' 1) ''visit_type'' = Some (PyStr ''routine_checkup'')
        \<and> map_of (dicts w' 1) ''diagnosis_code'' = Some (PyStr ''encrypted_value''))"
proof -
  obtain w' where p: "process mock_processor sample_event sample_world = (Inr sample_processed, w')"
    and d: "map_of (dicts w' 1) ''diagnosis_code'' = Some (PyStr ''encrypted_value'')"
    using process_sample by simp
  have h: "payload sample_event < next_addr sample_world"
    by (simp add: sample_event_def sample_world_def)
  have s: "''visit_type'' \<notin> set sensitive_fields"
    by (simp add: sensitive_fields_def)
  note t = process_leaves_input_unchanged
             [of mock_processor sample_event sample_world "Inr sample_processed" w' sample_processed]
  from t p h have "\<forall>a < next_addr sample_world. dicts w' a = dicts sample_world a"
    and "dicts w' (payload sample_event) = dicts sample_world (payload sample_event)"
    and "payload sample_processed = next_addr sample_world"
    and "\<forall>k. k \<notin> set sensitive_fields
            \<longrightarrow> map_of (dicts w' (payload sample_processed)) k
                = map_of (dicts sample_world (payload sample_event)) k"
    by blast+
  with p h s d show ?thesis
    by (auto simp: sample_event_def sample_world_def sample_payload_def)
qed



section \<open>Validation of the identifiers\<close>

lemma strip_Nil [simp]: "strip [] = []"
  by (simp add: strip_def)

lemma id_field_ok_iff: "id_field_ok lo hi v \<longleftrightarrow> lo \<le> length v \<and> length v \<le> hi \<and> strip v \<noteq> []"
  by (auto simp: id_field_ok_def)

lemma HealthcareEvent_init_iff:
  "HealthcareEvent_init body = Inr body \<longleftrightarrow>
     id_field_ok 1 50 (provider_id body) \<and> id_field_ok 1 100 (patient_id body)"
  by (simp add: HealthcareEvent_init_def field_errors_def split: list.splits)

lemma HealthcareEvent_init_cases:
  "HealthcareEvent_init body = Inr body \<or>
   (\<exists>errs. HealthcareEvent_init body = Inl (ValidationError errs))"
  by (simp add: HealthcareEvent_init_def split: list.splits)

lemma strip_nonempty_length: "strip v \<noteq> [] \<Longrightarrow> 1 \<le> length v"
  by (cases v) simp_all


text \<open>
  Claim C9, amended. An event whose provider identifier or patient identifier is
  empty or consists of whitespace only is rejected with a validation error when the
  request body is turned into a \<open>HealthcareEvent\<close>; the store and the log of encryption
  calls are then as they were, so no encryption call was made. An event passes
  validation exactly when both identifiers are non-empty after trimming and the
  provider identifier has at most 50 and the patient identifier at most 100
  characters.
\<close>

theorem blank_identifier_rejected_before_encryption:
  "((strip (provider_id body) = [] \<or> strip (patient_id body) = [])
      \<longrightarrow> (\<exists>errs. ingest_event ep body w = (Inl (ValidationError errs), w))
          \<and> encrypt_calls (snd (ingest_event ep body w)) = encrypt_calls w)
   \<and> (HealthcareEvent_init body = Inr body \<longleftrightarrow>
        strip (provider_id body) \<noteq> [] \<and> length (provider_id body) \<le> 50
      \<and> strip (patient_id body) \<noteq> [] \<and> length (patient_id body) \<le> 100)"
proof (intro conjI impI)
  assume blank: "strip (provider_id body) = [] \<or> strip (patient_id body) = []"
  then have "HealthcareEvent_init body \<noteq> Inr body"
    by (auto simp: HealthcareEvent_init_iff id_field_ok_iff)
  then obtain errs where "HealthcareEvent_init body = Inl (ValidationError errs)"
    using HealthcareEvent_init_cases by blast
  then have r: "ingest_event ep body w = (Inl (ValidationError errs), w)"
    by (simp add: ingest_event_def)
  then show "\<exists>errs. ingest_event ep body w = (Inl (ValidationError errs), w)" by blast
  from r show "encrypt_calls (snd (ingest_event ep body w)) = encrypt_calls w" by simp
next
  show "HealthcareEvent_init body = Inr body \<longleftrightarrow>
        strip (provider_id body) \<noteq> [] \<and> length (provider_id body) \<le> 50
      \<and> strip (patient_id body) \<noteq> [] \<and> length (patient_id body) \<le> 100"
    using strip_nonempty_length by (auto simp: HealthcareEvent_init_iff id_field_ok_iff)
qed

lemma strip_blank: "strip ''   '' = []"
  by (simp add: strip_def isspace_def)

theorem blank_identifier_rejected_before_encryption_witness:
  "(strip (provider_id blank_patient_event) = [] \<or> strip (patient_id blank_patient_event) = [])
   \<and> ingest_event mock_processor blank_patient_event sample_world
        = (Inl (ValidationError [''patient_id'']), sample_world)
   \<and> encrypt_calls (snd (ingest_event mock_processor blank_patient_event sample_world)) = []
   \<and> HealthcareEvent_init sample_event = Inr sample_event"
proof -
  have b: "strip (provider_id blank_patient_event) = [] \<or> strip (patient_id blank_patient_event) = []"
    by (simp add: blank_patient_event_def strip_blank)
  note t = blank_identifier_rejected_before_encryption [of blank_patient_event mock_processor sample_world]
  note u = blank_identifier_rejected_before_encryption [of sample_event mock_processor sample_world]
  from t b obtain errs where
    e: "ingest_event mock_processor blank_patient_event sample_world = (Inl (ValidationError errs), sample_world)"
    and c: "encrypt_calls (snd (ingest_event mock_processor blank_patient_event sample_world)) = encrypt_calls sample_world"
    by blast
  have "errs = [''patient_id'']"
    using e by (simp add: ingest_event_def HealthcareEvent_init_def field_errors_def id_field_ok_def
          blank_patient_event_def sample_event_def strip_def isspace_def)
  moreover have "HealthcareEvent_init sample_event = Inr sample_event"
    using u by (simp add: sample_event_def strip_def isspace_def)
  ultimately show ?thesis using b e c by (simp add: sample_world_def)
qed


text \<open>
  The claim as stated fails: a provider identifier of 51 letters is non-empty after
  trimming, and the event is rejected, by the \<open>max_length=50\<close> constraint of the field.
\<close>

lemma long_provider_rejected:
  "strip (provider_id long_provider_event) \<noteq> []
   \<and> strip (patient_id long_provider_event) \<noteq> []
   \<and> HealthcareEvent_init long_provider_event = Inl (ValidationError [''provider_id''])"
  by code_simp

theorem long_identifier_counterexample:
  "strip (provider_id long_provider_event) \<noteq> []
   \<and> strip (patient_id long_provider_event) \<noteq> []
   \<and> HealthcareEvent_init long_provider_event = Inl (ValidationError [''provider_id''])
   \<and> ingest_event mock_processor long_provider_event sample_world
        = (Inl (ValidationError [''provider_id'']), sample_world)"
  using long_provider_rejected by (simp add: ingest_event_def)


section \<open>Producer: retries and dead-lettering of a single record\<close>

lemmas producer_defs =
  KinesisProducer_init_def settings_def mock_bytes_def sample_processed_def second_processed_def
  throttled_client_def denied_client_def partial_client_def unreachable_client_def wire_def

lemma upt_first_attempt: "0 < n \<Longrightarrow> [0 ..< n] = 0 # [1 ..< n]"
  by (simp add: upt_conv_Cons)

lemma upt_three: "[0 ..< 3] = [0, 1, 2]"
  by (simp add: upt_rec)

lemma send_attempts_throttled:
  assumes "\<And>tr'. put_record p e tr' = PutClientError ''ProvisionedThroughputExceededException''"
  shows "send_attempts p e as tr = (Inr False, tr @ concat (map (throttled_attempt p e) as))"
  using assms
  by (induction as arbitrary: tr) (simp_all add: throttled_attempt_def Let_def)

text \<open>
  \<open>_send_to_dlq\<close> makes one put on the dead-letter stream, whatever its outcome; it returns
  unless the put raised an exception that is not a \<open>ClientError\<close>.
\<close>

lemma send_to_dlq_shape:
  "\<exists>r rest. snd (send_to_dlq p e tr) =
        tr @ PutRecord (dlq_stream_name p) (dump_json_bytes p e) (partition_key e) r # rest
      \<and> (case r of
            PutOk sh sq \<Rightarrow> fst (send_to_dlq p e tr) = Inr () \<and> rest = [Log ''event_sent_to_dlq'']
          | PutClientError code \<Rightarrow>
              fst (send_to_dlq p e tr) = Inr () \<and> rest = [Log ''dlq_publish_failed'']
          | PutOtherError exn \<Rightarrow> fst (send_to_dlq p e tr) = Inl exn \<and> rest = [])"
  by (cases "client_put_record (client p) tr (dlq_stream_name p) (dump_json_bytes p e) (partition_key e)")
     (simp_all add: send_to_dlq_def Let_def)

text \<open>
  What \<open>send_event\<close> does when the service answers every put on the primary stream with the
  throttling code, and when it answers the first put with another error code.
\<close>

lemma send_event_throttled:
  assumes "\<And>tr'. put_record p e tr' = PutClientError ''ProvisionedThroughputExceededException''"
  shows "send_event p e tr =
     (case fst (send_to_dlq p e (tr @ concat (map (throttled_attempt p e) [0 ..< max_retries p]))) of
        Inl exn \<Rightarrow> Inl exn | Inr u \<Rightarrow> Inr False,
      snd (send_to_dlq p e (tr @ concat (map (throttled_attempt p e) [0 ..< max_retries p]))))"
  by (simp add: send_event_def send_attempts_throttled [OF assms] split: prod.splits sum.splits)

lemma send_event_not_retryable:
  assumes "0 < max_retries p" "put_record p e tr = PutClientError code"
    "code \<noteq> ''ProvisionedThroughputExceededException''"
  shows "send_event p e tr =
     (case fst (send_to_dlq p e
                  (tr @ [PutRecord (stream_name p) (dump_json_bytes p e) (partition_key e)
                           (PutClientError code), Log ''kinesis_publish_retry''])) of
        Inl exn \<Rightarrow> Inl exn | Inr u \<Rightarrow> Inr False,
      snd (send_to_dlq p e
             (tr @ [PutRecord (stream_name p) (dump_json_bytes p e) (partition_key e)
                      (PutClientError code), Log ''kinesis_publish_retry''])))"
  using assms
  by (simp add: send_event_def upt_first_attempt Let_def split: prod.splits sum.splits)

lemma send_event_throttled_sample:
  "send_event (KinesisProducer_init settings throttled_client mock_bytes) sample_processed [] =
       (Inr False,
        [PutRecord ''healthcare-events'' ''evt-1|encrypted_value'' (Some ''PROV-001:patient_visit'')
           (PutClientError ''ProvisionedThroughputExceededException''),
         Log ''kinesis_publish_retry'', Sleep (1 / 10),
         PutRecord ''healthcare-events'' ''evt-1|encrypted_value'' (Some ''PROV-001:patient_visit'')
           (PutClientError ''ProvisionedThroughputExceededException''),
         Log ''kinesis_publish_retry'', Sleep (2 / 10),
         PutRecord ''healthcare-events'' ''evt-1|encrypted_value'' (Some ''PROV-001:patient_visit'')
           (PutClientError ''ProvisionedThroughputExceededException''),
         Log ''kinesis_publish_retry'', Sleep (4 / 10),
         PutRecord ''healthcare-events-dlq'' ''evt-1|encrypted_value''
           (Some ''PROV-001:patient_visit'') (PutOk ''shardId-000'' ''1''),
         Log ''event_sent_to_dlq''])"
proof -
  let ?p = "KinesisProducer_init settings throttled_client mock_bytes"
  have h: "put_record ?p sample_processed tr'
            = PutClientError ''ProvisionedThroughputExceededException''" for tr'
    by (simp add: put_record_def KinesisProducer_init_def settings_def throttled_client_def)
  show ?thesis
    unfolding send_event_throttled [of ?p sample_processed, OF h]
    by (simp add: send_to_dlq_def producer_defs upt_three throttled_attempt_def Let_def)
qed

text \<open>
  Claim C3. A publish whose every attempt is throttled makes \<open>max_retries\<close> (3) put attempts,
  sleeping \<open>base_delay * 2 ^ attempt\<close> after each, and then one dead-letter write; on a
  non-retryable transport failure the producer stops retrying and dead-letters. The code does
  so for the failures that boto3 raises as \<open>ClientError\<close>. It misses the others: when the
  transport fails with an exception that is not a \<open>ClientError\<close> (here the endpoint of the
  service cannot be reached), the handler \<open>except ClientError\<close> of \<open>send_event\<close> does not
  catch it. The exception leaves \<open>send_event\<close> after the first put: there is no retry, no
  dead-letter write, and no \<open>False\<close> is returned.
\<close>

theorem send_event_transport_failure_escapes:
  "send_event (KinesisProducer_init settings unreachable_client mock_bytes) sample_processed [] =
     (Inl ''EndpointConnectionError'',
      [PutRecord ''healthcare-events'' ''evt-1|encrypted_value'' (Some ''PROV-001:patient_visit'')
         (PutOtherError ''EndpointConnectionError'')])
   \<and> put_attempts ''healthcare-events-dlq''
        (snd (send_event (KinesisProducer_init settings unreachable_client mock_bytes)
                sample_processed []))
       = []"
  by (simp add: send_event_def upt_first_attempt put_record_def producer_defs Let_def
        put_attempts_def)

section \<open>Producer: what reaches which stream\<close>

lemma reached_append: "reached s (a @ b) = reached s a @ reached s b"
  by (simp add: reached_def)

lemma put_attempts_append: "put_attempts s (a @ b) = put_attempts s a @ put_attempts s b"
  by (simp add: put_attempts_def)

lemma trace_simps:
  "reached s [] = []" "reached s (Log l # tr) = reached s tr" "reached s (Sleep dl # tr) = reached s tr"
  "reached s (PutRecord s' d pk r # tr) = delivered s (PutRecord s' d pk r) @ reached s tr"
  "reached s (PutRecords s' recs b # tr) = delivered s (PutRecords s' recs b) @ reached s tr"
  "put_attempts s [] = []" "put_attempts s (Log l # tr) = put_attempts s tr"
  "put_attempts s (Sleep dl # tr) = put_attempts s tr"
  "put_attempts s (PutRecords s' recs b # tr) = put_attempts s tr"
  "put_attempts s (PutRecord s' d pk r # tr) = (if s' = s then [(d, pk)] else []) @ put_attempts s tr"
  by (simp_all add: reached_def put_attempts_def)

lemma send_to_dlq_attempts:
  "put_attempts (dlq_stream_name p) (snd (send_to_dlq p e tr))
     = put_attempts (dlq_stream_name p) tr @ [wire p e]"
  by (simp add: send_to_dlq_def Let_def put_attempts_append trace_simps wire_def
        split: put_result.splits)

lemma send_to_dlq_batch_calls:
  "filter batch_call (snd (send_to_dlq p e tr)) = filter batch_call tr"
  by (simp add: send_to_dlq_def Let_def split: put_result.splits)

lemma send_to_dlq_primary:
  "stream_name p \<noteq> dlq_stream_name p \<Longrightarrow>
   reached (stream_name p) (snd (send_to_dlq p e tr)) = reached (stream_name p) tr"
  by (simp add: send_to_dlq_def Let_def reached_append trace_simps split: put_result.splits)

lemma send_to_dlq_reached:
  "reached (dlq_stream_name p) (snd (send_to_dlq p e tr))
     = reached (dlq_stream_name p) tr @
       (case client_put_record (client p) tr (dlq_stream_name p) (dump_json_bytes p e) (partition_key e) of
          PutOk sh sq \<Rightarrow> [wire p e]
        | PutClientError code \<Rightarrow> []
        | PutOtherError exn \<Rightarrow> [])"
  by (simp add: send_to_dlq_def Let_def reached_append trace_simps wire_def split: put_result.splits)

lemma handle_failed_records_attempts:
  "handle_failed_records p es rs tr = (Inr u, tr') \<Longrightarrow>
   put_attempts (dlq_stream_name p) tr'
     = put_attempts (dlq_stream_name p) tr
       @ map (wire p) (map fst (filter (\<lambda>(e, r). record_failed r) (zip es rs)))"
proof (induction p es rs tr rule: handle_failed_records.induct)
  case (1 p e es c m rs tr)
  obtain x tr1 where s: "send_to_dlq p e tr = (x, tr1)"
    by (cases "send_to_dlq p e tr")
  with "1.prems" obtain v where x: "x = Inr v" "handle_failed_records p es rs tr1 = (Inr u, tr')"
    by (cases x) simp_all
  from "1.IH" [OF s [symmetric] x(1) x(2)]
  have "put_attempts (dlq_stream_name p) tr'
     = put_attempts (dlq_stream_name p) tr1
       @ map (wire p) (map fst (filter (\<lambda>(e, r). record_failed r) (zip es rs)))"
    by simp
  moreover have "put_attempts (dlq_stream_name p) tr1
     = put_attempts (dlq_stream_name p) tr @ [wire p e]"
    using send_to_dlq_attempts [of p e tr] s by simp
  ultimately show ?case by simp
qed auto

lemma handle_failed_records_batch_calls:
  "filter batch_call (snd (handle_failed_records p es rs tr)) = filter batch_call tr"
proof (induction p es rs tr rule: handle_failed_records.induct)
  case (1 p e es c m rs tr)
  obtain x tr1 where s: "send_to_dlq p e tr = (x, tr1)"
    by (cases "send_to_dlq p e tr")
  have b: "filter batch_call tr1 = filter batch_call tr"
    using send_to_dlq_batch_calls [of p e tr] s by simp
  show ?case
  proof (cases x)
    case (Inl exn)
    with s b show ?thesis by simp
  next
    case (Inr v)
    with "1.IH" [OF s [symmetric] Inr] s b show ?thesis by simp
  qed
qed auto

lemma handle_failed_records_primary:
  "stream_name p \<noteq> dlq_stream_name p \<Longrightarrow>
   reached (stream_name p) (snd (handle_failed_records p es rs tr)) = reached (stream_name p) tr"
proof (induction p es rs tr rule: handle_failed_records.induct)
  case (1 p e es c m rs tr)
  obtain x tr1 where s: "send_to_dlq p e tr = (x, tr1)"
    by (cases "send_to_dlq p e tr")
  have b: "reached (stream_name p) tr1 = reached (stream_name p) tr"
    using send_to_dlq_primary [OF "1.prems", of e tr] s by simp
  show ?case
  proof (cases x)
    case (Inl exn)
    with s b show ?thesis by simp
  next
    case (Inr v)
    with "1.IH" [OF s [symmetric] Inr "1.prems"] s b show ?thesis by simp
  qed
qed auto

lemma send_all_to_dlq_attempts:
  "send_all_to_dlq p es tr = (Inr u, tr') \<Longrightarrow>
   put_attempts (dlq_stream_name p) tr' = put_attempts (dlq_stream_name p) tr @ map (wire p) es"
proof (induction es arbitrary: tr)
  case Nil
  then show ?case by simp
next
  case (Cons e es)
  obtain x tr1 where s: "send_to_dlq p e tr = (x, tr1)"
    by (cases "send_to_dlq p e tr")
  with Cons.prems obtain v where x: "x = Inr v" "send_all_to_dlq p es tr1 = (Inr u, tr')"
    by (cases x) simp_all
  have "put_attempts (dlq_stream_name p) tr1
     = put_attempts (dlq_stream_name p) tr @ [wire p e]"
    using send_to_dlq_attempts [of p e tr] s by simp
  with Cons.IH [OF x(2)] show ?case by simp
qed

lemma send_all_to_dlq_batch_calls:
  "filter batch_call (snd (send_all_to_dlq p es tr)) = filter batch_call tr"
proof (induction es arbitrary: tr)
  case Nil
  then show ?case by simp
next
  case (Cons e es)
  obtain x tr1 where s: "send_to_dlq p e tr = (x, tr1)"
    by (cases "send_to_dlq p e tr")
  have b: "filter batch_call tr1 = filter batch_call tr"
    using send_to_dlq_batch_calls [of p e tr] s by simp
  show ?case using s b Cons.IH [of tr1] by (cases x) simp_all
qed

lemma send_all_to_dlq_primary:
  "stream_name p \<noteq> dlq_stream_name p \<Longrightarrow>
   reached (stream_name p) (snd (send_all_to_dlq p es tr)) = reached (stream_name p) tr"
proof (induction es arbitrary: tr)
  case Nil
  then show ?case by simp
next
  case (Cons e es)
  obtain x tr1 where s: "send_to_dlq p e tr = (x, tr1)"
    by (cases "send_to_dlq p e tr")
  have b: "reached (stream_name p) tr1 = reached (stream_name p) tr"
    using send_to_dlq_primary [OF Cons.prems, of e tr] s by simp
  show ?case using s b Cons.IH [OF Cons.prems, of tr1] by (cases x) simp_all
qed

lemma length_failed_zip:
  "length rs = length es \<Longrightarrow>
   length (filter (\<lambda>(e, r). record_failed r) (zip es rs)) = length (filter record_failed rs)"
proof (induction es arbitrary: rs)
  case Nil
  then show ?case by simp
next
  case (Cons e es)
  then obtain r rs' where "rs = r # rs'" by (cases rs) simp_all
  with Cons show ?case by simp
qed

lemma send_attempts_trace:
  assumes "stream_name p \<noteq> dlq_stream_name p" "send_attempts p e as tr = (x, tr')"
  shows "reached (stream_name p) tr'
           = reached (stream_name p) tr @ (if x = Inr True then [wire p e] else [])
       \<and> put_attempts (dlq_stream_name p) tr' = put_attempts (dlq_stream_name p) tr
       \<and> reached (dlq_stream_name p) tr' = reached (dlq_stream_name p) tr"
  using assms(2)
proof (induction as arbitrary: tr)
  case Nil
  then show ?case by auto
next
  case (Cons a as)
  show ?case
  proof (cases "put_record p e tr")
    case (PutOk sh sq)
    with Cons.prems assms(1) show ?thesis
      by (auto simp: Let_def reached_append put_attempts_append trace_simps wire_def)
  next
    case (PutOtherError exn)
    with Cons.prems assms(1) show ?thesis
      by (auto simp: Let_def reached_append put_attempts_append trace_simps wire_def)
  next
    case (PutClientError code)
    let ?tr1 = "tr @ [PutRecord (stream_name p) (dump_json_bytes p e) (partition_key e) (PutClientError code),
                      Log ''kinesis_publish_retry'']"
    have same: "reached (stream_name p) ?tr1 = reached (stream_name p) tr"
        "put_attempts (dlq_stream_name p) ?tr1 = put_attempts (dlq_stream_name p) tr"
        "reached (dlq_stream_name p) ?tr1 = reached (dlq_stream_name p) tr"
      using assms(1) by (simp_all add: reached_append put_attempts_append trace_simps)
    show ?thesis
    proof (cases "code = ''ProvisionedThroughputExceededException''")
      case True
      let ?tr2 = "?tr1 @ [Sleep (base_delay p * 2 ^ a)]"
      from Cons.prems PutClientError True have "send_attempts p e as ?tr2 = (x, tr')"
        by (simp add: Let_def)
      from Cons.IH [OF this] same show ?thesis
        by (simp add: reached_append put_attempts_append trace_simps)
    next
      case False
      with Cons.prems PutClientError have "x = Inr False" "tr' = ?tr1"
        by (auto simp: Let_def)
      with same show ?thesis by simp
    qed
  qed
qed

lemma delivered_batch_wire:
  "map fst (filter (\<lambda>(r, res). case res of RecordOk sh sq \<Rightarrow> True | RecordError c m \<Rightarrow> False)
              (zip (map (wire p) es) rs))
   = map (wire p) (map fst (filter (\<lambda>(e, r). \<not> record_failed r) (zip es rs)))"
proof (induction es arbitrary: rs)
  case Nil
  then show ?case by simp
next
  case (Cons e es)
  show ?case
  proof (cases rs)
    case Nil
    then show ?thesis by simp
  next
    case (Cons r rs')
    with Cons.IH [of rs'] show ?thesis by (cases r) simp_all
  qed
qed

lemma snd_escape:
  "snd (case x of (Inl exn, t) \<Rightarrow> (Inl exn, t) | (Inr u, t) \<Rightarrow> (f u, t)) = snd x"
  by (cases x) (simp split: sum.splits)

lemma records_wire: "map (\<lambda>e. (dump_json_bytes p e, partition_key e)) events = map (wire p) events"
  by (simp add: wire_def)

lemma send_batch_primary:
  assumes ne: "stream_name p \<noteq> dlq_stream_name p"
  shows "reached (stream_name p) (snd (send_batch p events tr))
     = reached (stream_name p) tr @
       (case client_put_records (client p) tr (stream_name p) (map (wire p) events) of
          BatchOk response \<Rightarrow>
            map (wire p) (map fst (filter (\<lambda>(e, r). \<not> record_failed r) (zip events (Records response))))
        | BatchClientError code \<Rightarrow> []
        | BatchOtherError exn \<Rightarrow> [])"
proof (cases "client_put_records (client p) tr (stream_name p) (map (wire p) events)")
  case (BatchOk response)
  then show ?thesis
    using ne
    by (simp add: send_batch_def records_wire Let_def snd_escape handle_failed_records_primary
          reached_append trace_simps delivered_batch_wire)
next
  case (BatchClientError code)
  then show ?thesis
    using ne
    by (simp add: send_batch_def records_wire Let_def snd_escape send_all_to_dlq_primary
          reached_append trace_simps)
next
  case (BatchOtherError exn)
  then show ?thesis
    by (simp add: send_batch_def records_wire Let_def reached_append trace_simps)
qed

lemma send_batch_batch_calls:
  "filter batch_call (snd (send_batch p events tr))
     = filter batch_call tr
       @ [PutRecords (stream_name p) (map (wire p) events)
            (client_put_records (client p) tr (stream_name p) (map (wire p) events))]"
  by (cases "client_put_records (client p) tr (stream_name p) (map (wire p) events)")
     (simp_all add: send_batch_def records_wire Let_def snd_escape
        handle_failed_records_batch_calls send_all_to_dlq_batch_calls)

lemma send_batch_dlq_attempts:
  assumes run: "send_batch p events tr = (Inr summary, tr')"
    and "client_put_records (client p) tr (stream_name p) (map (wire p) events) = BatchOk response
         \<and> length (Records response) = length events
         \<and> FailedRecordCount response = Some (int (length (filter record_failed (Records response))))
         \<or> client_put_records (client p) tr (stream_name p) (map (wire p) events) = BatchClientError code"
  shows "put_attempts (dlq_stream_name p) tr'
     = put_attempts (dlq_stream_name p) tr @
       (case client_put_records (client p) tr (stream_name p) (map (wire p) events) of
          BatchOk response \<Rightarrow>
            map (wire p) (map fst (filter (\<lambda>(e, r). record_failed r) (zip events (Records response))))
        | BatchClientError code \<Rightarrow> map (wire p) events
        | BatchOtherError exn \<Rightarrow> [])"
  using assms(2)
proof
  assume a: "client_put_records (client p) tr (stream_name p) (map (wire p) events) = BatchOk response
         \<and> length (Records response) = length events
         \<and> FailedRecordCount response = Some (int (length (filter record_failed (Records response))))"
  let ?tr1 = "tr @ [PutRecords (stream_name p) (map (wire p) events) (BatchOk response),
                    Log ''batch_published'']"
  have t1: "put_attempts (dlq_stream_name p) ?tr1 = put_attempts (dlq_stream_name p) tr"
    by (simp add: put_attempts_append trace_simps)
  show ?thesis
  proof (cases "length (filter record_failed (Records response)) = 0")
    case True
    then have z: "filter (\<lambda>(e, r). record_failed r) (zip events (Records response)) = []"
      using a length_failed_zip [of "Records response" events] by simp
    from run a True have "tr' = ?tr1"
      by (simp add: send_batch_def records_wire Let_def)
    with a z t1 show ?thesis by simp
  next
    case False
    obtain x tr2 where h: "handle_failed_records p events (Records response) ?tr1 = (x, tr2)"
      by (cases "handle_failed_records p events (Records response) ?tr1")
    from run a False h obtain u where x: "x = Inr u" "tr' = tr2"
      by (cases x) (simp_all add: send_batch_def records_wire Let_def)
    from handle_failed_records_attempts [of p events "Records response" ?tr1 u tr2] h x t1 a
    show ?thesis by simp
  qed
next
  assume a: "client_put_records (client p) tr (stream_name p) (map (wire p) events) = BatchClientError code"
  let ?tr1 = "tr @ [PutRecords (stream_name p) (map (wire p) events) (BatchClientError code),
                    Log ''batch_publish_failed'']"
  have t1: "put_attempts (dlq_stream_name p) ?tr1 = put_attempts (dlq_stream_name p) tr"
    by (simp add: put_attempts_append trace_simps)
  obtain x tr2 where h: "send_all_to_dlq p events ?tr1 = (x, tr2)"
    by (cases "send_all_to_dlq p events ?tr1")
  from run a h obtain u where x: "x = Inr u" "tr' = tr2"
    by (cases x) (simp_all add: send_batch_def records_wire Let_def)
  from send_all_to_dlq_attempts [of p events ?tr1 u tr2] h x t1 a
  show ?thesis by simp
qed

text \<open>
  Claim C4, amended. For a producer whose two stream names differ, and a call of the producer
  that returns: a record handed to \<open>send_event\<close> reaches the primary stream exactly when the
  call returns \<open>True\<close>, and one dead-letter put is made for it exactly when the call returns
  \<open>False\<close>; of the records handed to \<open>send_batch\<close>, those whose result in a consistent batch
  response carries no error code reach the primary stream and the others get one dead-letter
  put each, and all of them get one when the batch call raises \<open>ClientError\<close>. So a
  dead-letter write is attempted if and only if the record did not reach the primary stream.
  That put carries the data and the partition key of the primary put and goes to the
  configured dead-letter stream. The record is in the dead-letter stream only if that put
  succeeded; a failed dead-letter put is logged and not retried. With the default settings the
  two stream names differ.
\<close>

theorem dead_letter_iff_not_published:
  "(stream_name p \<noteq> dlq_stream_name p \<and> send_event p e tr = (Inr ok, tr')
      \<longrightarrow> reached (stream_name p) tr'
            = reached (stream_name p) tr @ (if ok then [wire p e] else [])
        \<and> put_attempts (dlq_stream_name p) tr'
            = put_attempts (dlq_stream_name p) tr @ (if ok then [] else [wire p e])
        \<and> (\<exists>late. reached (dlq_stream_name p) tr' = reached (dlq_stream_name p) tr @ late
                  \<and> (late = [] \<or> late = [wire p e] \<and> ok = False)))
   \<and> (stream_name p \<noteq> dlq_stream_name p
      \<and> send_batch p events tr = (Inr summary, tr2)
      \<and> client_put_records (client p) tr (stream_name p) (map (wire p) events) = BatchOk response
      \<and> length (Records response) = length events
      \<and> FailedRecordCount response = Some (int (length (filter record_failed (Records response))))
      \<longrightarrow> reached (stream_name p) tr2
            = reached (stream_name p) tr
              @ map (wire p) (map fst (filter (\<lambda>(e, r). \<not> record_failed r)
                                        (zip events (Records response))))
        \<and> put_attempts (dlq_stream_name p) tr2
            = put_attempts (dlq_stream_name p) tr
              @ map (wire p) (map fst (filter (\<lambda>(e, r). record_failed r)
                                        (zip events (Records response)))))
   \<and> (stream_name p \<noteq> dlq_stream_name p
      \<and> send_batch p events tr = (Inr summary, tr2)
      \<and> client_put_records (client p) tr (stream_name p) (map (wire p) events) = BatchClientError code
      \<longrightarrow> reached (stream_name p) tr2 = reached (stream_name p) tr
        \<and> put_attempts (dlq_stream_name p) tr2
            = put_attempts (dlq_stream_name p) tr @ map (wire p) events)
   \<and> stream_name (KinesisProducer_init settings c dump)
       \<noteq> dlq_stream_name (KinesisProducer_init settings c dump)"
proof (intro conjI impI)
  assume a: "stream_name p \<noteq> dlq_stream_name p \<and> send_event p e tr = (Inr ok, tr')"
  then have ne: "stream_name p \<noteq> dlq_stream_name p" by simp
  obtain x tr1 where s: "send_attempts p e [0 ..< max_retries p] tr = (x, tr1)"
    by (cases "send_attempts p e [0 ..< max_retries p] tr")
  note st = send_attempts_trace [OF ne s]
  from a s obtain b where x: "x = Inr b"
    by (cases x) (simp_all add: send_event_def)
  show "reached (stream_name p) tr'
            = reached (stream_name p) tr @ (if ok then [wire p e] else [])"
  proof (cases b)
    case True
    with a s x st show ?thesis by (auto simp: send_event_def)
  next
    case False
    with a s x have r: "ok = False" "tr' = snd (send_to_dlq p e tr1)"
      by (auto simp: send_event_def split: prod.splits sum.splits)
    with st x False ne show ?thesis by (simp add: send_to_dlq_primary)
  qed
  show "put_attempts (dlq_stream_name p) tr'
            = put_attempts (dlq_stream_name p) tr @ (if ok then [] else [wire p e])"
  proof (cases b)
    case True
    with a s x st show ?thesis by (auto simp: send_event_def)
  next
    case False
    with a s x have r: "ok = False" "tr' = snd (send_to_dlq p e tr1)"
      by (auto simp: send_event_def split: prod.splits sum.splits)
    with st x False show ?thesis by (simp add: send_to_dlq_attempts)
  qed
  show "\<exists>late. reached (dlq_stream_name p) tr' = reached (dlq_stream_name p) tr @ late
                  \<and> (late = [] \<or> late = [wire p e] \<and> ok = False)"
  proof (cases b)
    case True
    with a s x st show ?thesis by (auto simp: send_event_def)
  next
    case False
    with a s x have r: "ok = False" "tr' = snd (send_to_dlq p e tr1)"
      by (auto simp: send_event_def split: prod.splits sum.splits)
    show ?thesis
      using st unfolding r send_to_dlq_reached
      by (cases "client_put_record (client p) tr1 (dlq_stream_name p) (dump_json_bytes p e) (partition_key e)")
         simp_all
  qed
next
  assume a: "stream_name p \<noteq> dlq_stream_name p
      \<and> send_batch p events tr = (Inr summary, tr2)
      \<and> client_put_records (client p) tr (stream_name p) (map (wire p) events) = BatchOk response
      \<and> length (Records response) = length events
      \<and> FailedRecordCount response = Some (int (length (filter record_failed (Records response))))"
  then have ne: "stream_name p \<noteq> dlq_stream_name p"
    and run: "send_batch p events tr = (Inr summary, tr2)" by simp_all
  from a send_batch_primary [OF ne, of events tr]
  show "reached (stream_name p) tr2
            = reached (stream_name p) tr
              @ map (wire p) (map fst (filter (\<lambda>(e, r). \<not> record_failed r)
                                        (zip events (Records response))))"
    by simp
  from a send_batch_dlq_attempts [OF run, of response]
  show "put_attempts (dlq_stream_name p) tr2
            = put_attempts (dlq_stream_name p) tr
              @ map (wire p) (map fst (filter (\<lambda>(e, r). record_failed r)
                                        (zip events (Records response))))"
    by simp
next
  assume a: "stream_name p \<noteq> dlq_stream_name p
      \<and> send_batch p events tr = (Inr summary, tr2)
      \<and> client_put_records (client p) tr (stream_name p) (map (wire p) events) = BatchClientError code"
  then have ne: "stream_name p \<noteq> dlq_stream_name p"
    and run: "send_batch p events tr = (Inr summary, tr2)" by simp_all
  from a send_batch_primary [OF ne, of events tr]
  show "reached (stream_name p) tr2 = reached (stream_name p) tr"
    by simp
  from a send_batch_dlq_attempts [OF run, of _ code]
  show "put_attempts (dlq_stream_name p) tr2
            = put_attempts (dlq_stream_name p) tr @ map (wire p) events"
    by simp
next
  show "stream_name (KinesisProducer_init settings c dump)
       \<noteq> dlq_stream_name (KinesisProducer_init settings c dump)"
    by (simp add: KinesisProducer_init_def settings_def)
qed

lemma send_batch_partial_sample:
  "fst (send_batch (KinesisProducer_init settings partial_client mock_bytes)
          [sample_processed, second_processed] [])
     = Inr \<lparr> total = 2, success = 1, failed = 1 \<rparr>"
  by (simp add: send_batch_def send_to_dlq_def producer_defs Let_def)

lemma send_batch_throttled_sample:
  "fst (send_batch (KinesisProducer_init settings throttled_client mock_bytes)
          [sample_processed, second_processed] [])
     = Inr \<lparr> total = 2, success = 0, failed = 2 \<rparr>"
  by (simp add: send_batch_def send_to_dlq_def producer_defs Let_def)

theorem dead_letter_iff_not_published_witness:
  "stream_name (KinesisProducer_init settings throttled_client mock_bytes) = ''healthcare-events''
   \<and> dlq_stream_name (KinesisProducer_init settings throttled_client mock_bytes)
       = ''healthcare-events-dlq''
   \<and> (\<exists>tr'. send_event (KinesisProducer_init settings throttled_client mock_bytes)
               sample_processed [] = (Inr False, tr')
          \<and> reached ''healthcare-events'' tr' = []
          \<and> put_attempts ''healthcare-events-dlq'' tr'
              = [(''evt-1|encrypted_value'', Some ''PROV-001:patient_visit'')]
          \<and> reached ''healthcare-events-dlq'' tr'
              = [(''evt-1|encrypted_value'', Some ''PROV-001:patient_visit'')])
   \<and> (\<exists>tr2. send_batch (KinesisProducer_init settings partial_client mock_bytes)
                [sample_processed, second_processed] []
              = (Inr \<lparr> total = 2, success = 1, failed = 1 \<rparr>, tr2)
          \<and> reached ''healthcare-events'' tr2
              = [(''evt-1|encrypted_value'', Some ''PROV-001:patient_visit'')]
          \<and> put_attempts ''healthcare-events-dlq'' tr2
              = [(''evt-2|encrypted_value'', Some ''PROV-001:patient_visit'')])
   \<and> (\<exists>tr3. send_batch (KinesisProducer_init settings throttled_client mock_bytes)
                [sample_processed, second_processed] []
              = (Inr \<lparr> total = 2, success = 0, failed = 2 \<rparr>, tr3)
          \<and> reached ''healthcare-events'' tr3 = []
          \<and> put_attempts ''healthcare-events-dlq'' tr3
              = [(''evt-1|encrypted_value'', Some ''PROV-001:patient_visit''),
                 (''evt-2|encrypted_value'', Some ''PROV-001:patient_visit'')])"
proof -
  let ?p = "KinesisProducer_init settings throttled_client mock_bytes"
  let ?q = "KinesisProducer_init settings partial_client mock_bytes"
  let ?es = "[sample_processed, second_processed]"
  let ?resp = "\<lparr> FailedRecordCount = Some 1,
                 Records = [RecordOk ''shardId-000'' ''2'', RecordError ''InternalFailure'' ''failed''] \<rparr>"
  have n: "stream_name ?p = ''healthcare-events''" "dlq_stream_name ?p = ''healthcare-events-dlq''"
       "stream_name ?q = ''healthcare-events''" "dlq_stream_name ?q = ''healthcare-events-dlq''"
    by (simp_all add: producer_defs)
  then have ne: "stream_name ?p \<noteq> dlq_stream_name ?p" "stream_name ?q \<noteq> dlq_stream_name ?q"
    by simp_all
  have w: "wire ?p sample_processed = (''evt-1|encrypted_value'', Some ''PROV-001:patient_visit'')"
    by (simp add: producer_defs)
  obtain tr' where run: "send_event ?p sample_processed [] = (Inr False, tr')"
    using send_event_throttled_sample by simp
  have dl: "reached ''healthcare-events-dlq'' tr'
              = [(''evt-1|encrypted_value'', Some ''PROV-001:patient_visit'')]"
    using run unfolding send_event_throttled_sample by (auto simp: trace_simps)
  obtain tr2 where run2: "send_batch ?q ?es [] = (Inr \<lparr> total = 2, success = 1, failed = 1 \<rparr>, tr2)"
    using send_batch_partial_sample by (cases "send_batch ?q ?es []") simp
  obtain tr3 where run3: "send_batch ?p ?es [] = (Inr \<lparr> total = 2, success = 0, failed = 2 \<rparr>, tr3)"
    using send_batch_throttled_sample by (cases "send_batch ?p ?es []") simp
  have h1: "client_put_records (client ?q) [] (stream_name ?q) (map (wire ?q) ?es) = BatchOk ?resp
      \<and> length (Records ?resp) = length ?es
      \<and> FailedRecordCount ?resp = Some (int (length (filter record_failed (Records ?resp))))"
    by (simp add: KinesisProducer_init_def partial_client_def)
  have h2: "client_put_records (client ?p) [] (stream_name ?p) (map (wire ?p) ?es)
       = BatchClientError ''ProvisionedThroughputExceededException''"
    by (simp add: KinesisProducer_init_def throttled_client_def)
  note t = dead_letter_iff_not_published
             [of ?p sample_processed "[]" False tr' ?es "\<lparr> total = 2, success = 0, failed = 2 \<rparr>"
                 tr3 _ "''ProvisionedThroughputExceededException''" throttled_client mock_bytes]
  note u = dead_letter_iff_not_published
             [of ?q _ "[]" _ _ ?es "\<lparr> total = 2, success = 1, failed = 1 \<rparr>" tr2 ?resp]
  from t ne run have
    "reached (stream_name ?p) tr' = reached (stream_name ?p) [] @ (if False then [wire ?p sample_processed] else [])"
    "put_attempts (dlq_stream_name ?p) tr'
       = put_attempts (dlq_stream_name ?p) [] @ (if False then [] else [wire ?p sample_processed])"
    by blast+
  with n w have s1: "reached ''healthcare-events'' tr' = []"
    "put_attempts ''healthcare-events-dlq'' tr'
              = [(''evt-1|encrypted_value'', Some ''PROV-001:patient_visit'')]"
    by (simp_all add: trace_simps)
  from u ne h1 run2 have
    "reached (stream_name ?q) tr2
       = reached (stream_name ?q) []
         @ map (wire ?q) (map fst (filter (\<lambda>(e, r). \<not> record_failed r) (zip ?es (Records ?resp))))"
    "put_attempts (dlq_stream_name ?q) tr2
       = put_attempts (dlq_stream_name ?q) []
         @ map (wire ?q) (map fst (filter (\<lambda>(e, r). record_failed r) (zip ?es (Records ?resp))))"
    by blast+
  then have s2: "reached ''healthcare-events'' tr2
       = [(''evt-1|encrypted_value'', Some ''PROV-001:patient_visit'')]"
    "put_attempts ''healthcare-events-dlq'' tr2
       = [(''evt-2|encrypted_value'', Some ''PROV-001:patient_visit'')]"
    unfolding n by (simp_all add: trace_simps producer_defs)
  from t ne h2 run3 have
    "reached (stream_name ?p) tr3 = reached (stream_name ?p) []"
    "put_attempts (dlq_stream_name ?p) tr3
       = put_attempts (dlq_stream_name ?p) [] @ map (wire ?p) ?es"
    by blast+
  then have s3: "reached ''healthcare-events'' tr3 = []"
    "put_attempts ''healthcare-events-dlq'' tr3
       = [(''evt-1|encrypted_value'', Some ''PROV-001:patient_visit''),
          (''evt-2|encrypted_value'', Some ''PROV-001:patient_visit'')]"
    unfolding n by (simp_all add: trace_simps producer_defs)
  from n run dl s1 run2 s2 run3 s3 show ?thesis by blast
qed

text \<open>
  The claim as stated fails: when the service rejects every put with a non-retryable error
  code, \<open>send_event\<close> returns \<open>False\<close> and the record has reached neither the primary stream
  nor the dead-letter stream; the failed dead-letter put is logged.
\<close>

lemma send_event_denied:
  "send_event (KinesisProducer_init settings denied_client mock_bytes) sample_processed [] =
     (Inr False,
      [PutRecord ''healthcare-events'' ''evt-1|encrypted_value'' (Some ''PROV-001:patient_visit'')
         (PutClientError ''AccessDeniedException''),
       Log ''kinesis_publish_retry'',
       PutRecord ''healthcare-events-dlq'' ''evt-1|encrypted_value''
         (Some ''PROV-001:patient_visit'') (PutClientError ''AccessDeniedException''),
       Log ''dlq_publish_failed''])"
  by (simp add: send_event_def upt_first_attempt put_record_def send_to_dlq_def producer_defs Let_def)

theorem record_in_neither_stream_counterexample:
  "send_event (KinesisProducer_init settings denied_client mock_bytes) sample_processed [] =
     (Inr False,
      [PutRecord ''healthcare-events'' ''evt-1|encrypted_value'' (Some ''PROV-001:patient_visit'')
         (PutClientError ''AccessDeniedException''),
       Log ''kinesis_publish_retry'',
       PutRecord ''healthcare-events-dlq'' ''evt-1|encrypted_value''
         (Some ''PROV-001:patient_visit'') (PutClientError ''AccessDeniedException''),
       Log ''dlq_publish_failed''])
   \<and> reached ''healthcare-events''
        (snd (send_event (KinesisProducer_init settings denied_client mock_bytes) sample_processed []))
       = []
   \<and> reached ''healthcare-events-dlq''
        (snd (send_event (KinesisProducer_init settings denied_client mock_bytes) sample_processed []))
       = []"
  by (simp add: send_event_denied trace_simps)

section \<open>Producer: batch publish\<close>

text \<open>
  What \<open>send_batch\<close> does when the batch call returns a response with one result per record,
  of which \<open>k\<close> carry an error code, and reports \<open>k\<close> as its failed-record count; and when the
  batch call raises \<open>ClientError\<close>. The batch call is made once in every case.
\<close>

lemma send_batch_summary:
  assumes "send_batch p events tr = (Inr summary, tr')"
  shows "(client_put_records (client p) tr (stream_name p) (map (wire p) events) = BatchOk response
      \<and> length (Records response) = length events
      \<and> FailedRecordCount response = Some (int (length (filter record_failed (Records response))))
      \<longrightarrow> summary
            = \<lparr> total = int (length events),
                success = int (length events) - int (length (filter record_failed (Records response))),
                failed = int (length (filter record_failed (Records response))) \<rparr>
        \<and> put_attempts (dlq_stream_name p) tr'
            = put_attempts (dlq_stream_name p) tr
              @ map (wire p) (map fst (filter (\<lambda>(e, r). record_failed r) (zip events (Records response))))
        \<and> length (map fst (filter (\<lambda>(e, r). record_failed r) (zip events (Records response))))
            = length (filter record_failed (Records response)))
   \<and> (client_put_records (client p) tr (stream_name p) (map (wire p) events) = BatchClientError code
      \<longrightarrow> summary = \<lparr> total = int (length events), success = 0, failed = int (length events) \<rparr>
        \<and> put_attempts (dlq_stream_name p) tr'
            = put_attempts (dlq_stream_name p) tr @ map (wire p) events)"
proof (intro conjI impI)
  assume a: "client_put_records (client p) tr (stream_name p) (map (wire p) events) = BatchOk response
      \<and> length (Records response) = length events
      \<and> FailedRecordCount response = Some (int (length (filter record_failed (Records response))))"
  show "summary
            = \<lparr> total = int (length events),
                success = int (length events) - int (length (filter record_failed (Records response))),
                failed = int (length (filter record_failed (Records response))) \<rparr>"
    using a assms
    by (auto simp: send_batch_def records_wire Let_def split: prod.splits sum.splits if_splits)
  show "put_attempts (dlq_stream_name p) tr'
            = put_attempts (dlq_stream_name p) tr
              @ map (wire p) (map fst (filter (\<lambda>(e, r). record_failed r) (zip events (Records response))))"
    using a send_batch_dlq_attempts [OF assms, of response] by simp
  show "length (map fst (filter (\<lambda>(e, r). record_failed r) (zip events (Records response))))
            = length (filter record_failed (Records response))"
    using a length_failed_zip [of "Records response" events] by simp
next
  assume a: "client_put_records (client p) tr (stream_name p) (map (wire p) events) = BatchClientError code"
  show "summary = \<lparr> total = int (length events), success = 0, failed = int (length events) \<rparr>"
    using a assms
    by (auto simp: send_batch_def records_wire Let_def split: prod.splits sum.splits)
  show "put_attempts (dlq_stream_name p) tr'
            = put_attempts (dlq_stream_name p) tr @ map (wire p) events"
    using a send_batch_dlq_attempts [OF assms, of _ code] by simp
qed

text \<open>
  Claim C5. Of a batch of \<open>n\<close> records of which the transport reports \<open>k\<close> as failed, those \<open>k\<close>
  are dead-lettered and the summary is total \<open>n\<close>, success \<open>n - k\<close>, failed \<open>k\<close>; if the entire
  batch call fails, all \<open>n\<close> records are dead-lettered and the summary reports zero succeeded.
  The code does so when the batch call returns or raises \<open>ClientError\<close>. It misses the other
  failures: when the batch call fails with an exception that is not a \<open>ClientError\<close> (here the
  endpoint of the service cannot be reached), the handler \<open>except ClientError\<close> of \<open>send_batch\<close>
  does not catch it. The exception leaves \<open>send_batch\<close> after the one batch call: no record is
  dead-lettered and no summary is returned.
\<close>

theorem send_batch_transport_failure_escapes:
  "send_batch (KinesisProducer_init settings unreachable_client mock_bytes)
       [sample_processed, second_processed] [] =
     (Inl ''EndpointConnectionError'',
      [PutRecords ''healthcare-events''
         [(''evt-1|encrypted_value'', Some ''PROV-001:patient_visit''),
          (''evt-2|encrypted_value'', Some ''PROV-001:patient_visit'')]
         (BatchOtherError ''EndpointConnectionError'')])
   \<and> put_attempts ''healthcare-events-dlq''
        (snd (send_batch (KinesisProducer_init settings unreachable_client mock_bytes)
                [sample_processed, second_processed] []))
       = []"
  by (simp add: send_batch_def producer_defs Let_def put_attempts_def)


section \<open>Consumer: processing a batch of records\<close>

lemmas consumer_defs =
  process_records_def process_record_def emit_def mock_consumer_def empty_state_def
  poison_record_def good_record_def record_5_def record_3_def

lemma process_record_table:
  "checkpoint_table (process_record c sh r st) =
     (if record_ok c r then (checkpoint_table st)(sh \<mapsto> SequenceNumber r) else checkpoint_table st)"
  by (simp add: process_record_def record_ok_def emit_def split: option.splits handler_result.splits)

lemma process_record_invocations:
  "invocations (effects (process_record c sh r st)) = invocations (effects st) @ decoded c [r]"
  by (simp add: process_record_def invocations_def decoded_def emit_def
        split: option.splits handler_result.splits)

lemma process_record_requests:
  "iterator_requests (effects (process_record c sh r st)) = iterator_requests (effects st)"
  by (simp add: process_record_def iterator_requests_def emit_def
        split: option.splits handler_result.splits)

lemma loop_append:
  "process_records_loop c sh (xs @ ys) st = process_records_loop c sh ys (process_records_loop c sh xs st)"
  by (induction xs arbitrary: st) simp_all

lemma loop_table:
  "checkpoint_table (process_records_loop c sh rs st) =
     (case filter (record_ok c) rs of
        [] \<Rightarrow> checkpoint_table st
      | zs \<Rightarrow> (checkpoint_table st)(sh \<mapsto> SequenceNumber (last zs)))"
proof (induction rs rule: rev_induct)
  case Nil
  then show ?case by simp
next
  case (snoc r rs)
  then show ?case
    by (simp add: loop_append process_record_table split: list.splits)
qed

lemma loop_invocations:
  "invocations (effects (process_records_loop c sh rs st)) = invocations (effects st) @ decoded c rs"
proof (induction rs arbitrary: st)
  case Nil
  then show ?case by (simp add: decoded_def)
next
  case (Cons r rs)
  then show ?case by (simp add: process_record_invocations decoded_def)
qed

lemma loop_requests:
  "iterator_requests (effects (process_records_loop c sh rs st)) = iterator_requests (effects st)"
  by (induction rs arbitrary: st) (simp_all add: process_record_requests)

lemma decoded_append: "decoded c (xs @ ys) = decoded c xs @ decoded c ys"
  by (simp add: decoded_def)

lemma process_records_table:
  "checkpoint_table (process_records c rs sh st) = checkpoint_table (process_records_loop c sh rs st)"
  by (simp add: process_records_def emit_def)

lemma invocations_append: "invocations (a @ b) = invocations a @ invocations b"
  by (simp add: invocations_def)

lemma process_records_invocations:
  "invocations (effects (process_records c rs sh st)) = invocations (effects st) @ decoded c rs"
proof -
  have "invocations [ConsumerLog ''records_processed'' sh] = []"
    by (simp add: invocations_def)
  then show ?thesis
    by (simp add: process_records_def emit_def invocations_append loop_invocations)
qed

lemma loop_table_after:
  "checkpoint_table (process_records_loop c sh (xs @ ys) st) sh =
     (case filter (record_ok c) ys of
        [] \<Rightarrow> checkpoint_table (process_records_loop c sh xs st) sh
      | zs \<Rightarrow> Some (SequenceNumber (last zs)))"
  by (simp add: loop_append loop_table [of c sh ys] split: list.splits)

lemma loop_table_skip:
  "\<not> record_ok c r \<Longrightarrow>
   checkpoint_table (process_records_loop c sh (xs @ [r]) st) = checkpoint_table (process_records_loop c sh xs st)"
  by (simp add: loop_append process_record_table)

text \<open>
  Claim C2, amended. When the handler raises on a record, the error is logged with
  the record's sequence number and the checkpoint table is left as it was: the write
  of the checkpoint sits after the handler call inside the \<open>try\<close> block and is skipped.
  The batch goes on: every record that decodes is handed to the handler, in order,
  the records after the failing one included, and each later record whose handler
  returns is checkpointed, so that after the batch the checkpoint of the shard is the
  sequence number of the last record handled without error after the failing one, or
  what it was before the failing one when there is none.
\<close>

theorem poison_record_does_not_block_shard:
  "json_loads c (Data poison) = Some d \<and> processor c d = Raised msg
     \<longrightarrow> process_record c sh poison st
           = emit [Invoke d, ConsumerLog ''record_processing_error'' (SequenceNumber poison)] st
       \<and> checkpoint_table (process_record c sh poison st) = checkpoint_table st
       \<and> invocations (effects (process_records c (xs @ poison # ys) sh st))
           = invocations (effects st) @ decoded c xs @ [d] @ decoded c ys
       \<and> checkpoint_table (process_records c (xs @ poison # ys) sh st) sh
           = (case filter (record_ok c) ys of
                [] \<Rightarrow> checkpoint_table (process_records c xs sh st) sh
              | zs \<Rightarrow> Some (SequenceNumber (last zs)))
       \<and> (\<forall>y ys1 ys2. ys = ys1 @ y # ys2 \<and> record_ok c y
            \<longrightarrow> checkpoint_table (process_records_loop c sh (xs @ poison # ys1 @ [y]) st) sh
                  = Some (SequenceNumber y))"
proof
  assume a: "json_loads c (Data poison) = Some d \<and> processor c d = Raised msg"
  then have nok: "\<not> record_ok c poison" by (simp add: record_ok_def)
  have dp: "decoded c [poison] = [d]" using a by (simp add: decoded_def)
  have 1: "process_record c sh poison st
           = emit [Invoke d, ConsumerLog ''record_processing_error'' (SequenceNumber poison)] st"
    using a by (simp add: process_record_def)
  have 2: "checkpoint_table (process_record c sh poison st) = checkpoint_table st"
    using nok by (simp add: process_record_table)
  have 3: "invocations (effects (process_records c (xs @ poison # ys) sh st))
           = invocations (effects st) @ decoded c xs @ [d] @ decoded c ys"
    using dp decoded_append [of c xs "[poison] @ ys"] decoded_append [of c "[poison]" ys]
    by (simp add: process_records_invocations)
  have 4: "checkpoint_table (process_records c (xs @ poison # ys) sh st) sh
           = (case filter (record_ok c) ys of
                [] \<Rightarrow> checkpoint_table (process_records c xs sh st) sh
              | zs \<Rightarrow> Some (SequenceNumber (last zs)))"
    using loop_table_after [of c sh "xs @ [poison]" ys st] loop_table_skip [OF nok, of sh xs st]
    by (simp add: process_records_table split: list.splits)
  have 5: "checkpoint_table (process_records_loop c sh (xs @ poison # ys1 @ [y]) st) sh
                  = Some (SequenceNumber y)" if "record_ok c y" for y ys1
    using that loop_table_after [of c sh "xs @ poison # ys1" "[y]" st] by simp
  from 1 2 3 4 5 show "process_record c sh poison st
           = emit [Invoke d, ConsumerLog ''record_processing_error'' (SequenceNumber poison)] st
       \<and> checkpoint_table (process_record c sh poison st) = checkpoint_table st
       \<and> invocations (effects (process_records c (xs @ poison # ys) sh st))
           = invocations (effects st) @ decoded c xs @ [d] @ decoded c ys
       \<and> checkpoint_table (process_records c (xs @ poison # ys) sh st) sh
           = (case filter (record_ok c) ys of
                [] \<Rightarrow> checkpoint_table (process_records c xs sh st) sh
              | zs \<Rightarrow> Some (SequenceNumber (last zs)))
       \<and> (\<forall>y ys1 ys2. ys = ys1 @ y # ys2 \<and> record_ok c y
            \<longrightarrow> checkpoint_table (process_records_loop c sh (xs @ poison # ys1 @ [y]) st) sh
                  = Some (SequenceNumber y))"
    by blast
qed

theorem poison_record_does_not_block_shard_witness:
  "json_loads mock_consumer (Data poison_record) = Some (PyStr ''poison'')
   \<and> processor mock_consumer (PyStr ''poison'') = Raised ''boom''
   \<and> [good_record] = [] @ good_record # [] \<and> record_ok mock_consumer good_record
   \<and> checkpoint_table (process_record mock_consumer ''shardId-000'' poison_record state_100)
       = checkpoint_table state_100
   \<and> invocations (effects (process_records mock_consumer ([] @ poison_record # [good_record])
                              ''shardId-000'' state_100))
       = [PyStr ''poison'', PyStr ''good'']
   \<and> checkpoint_table (process_records mock_consumer ([] @ poison_record # [good_record])
                         ''shardId-000'' state_100) ''shardId-000''
       = Some ''102''"
proof -
  have h: "json_loads mock_consumer (Data poison_record) = Some (PyStr ''poison'')
         \<and> processor mock_consumer (PyStr ''poison'') = Raised ''boom''"
    by (simp add: mock_consumer_def poison_record_def)
  have g: "[good_record] = [] @ good_record # [] \<and> record_ok mock_consumer good_record"
    by (simp add: record_ok_def mock_consumer_def good_record_def)
  note t = poison_record_does_not_block_shard
             [of mock_consumer poison_record "PyStr ''poison''" "''boom''" "''shardId-000''"
                 state_100 "[]" "[good_record]"]
  from t h have 1: "checkpoint_table (process_record mock_consumer ''shardId-000'' poison_record state_100)
       = checkpoint_table state_100"
    and 2: "invocations (effects (process_records mock_consumer ([] @ poison_record # [good_record])
                              ''shardId-000'' state_100))
       = invocations (effects state_100) @ decoded mock_consumer [] @ [PyStr ''poison'']
           @ decoded mock_consumer [good_record]"
    and 3: "checkpoint_table (process_records mock_consumer ([] @ poison_record # [good_record])
                         ''shardId-000'' state_100) ''shardId-000''
           = (case filter (record_ok mock_consumer) [good_record] of
                [] \<Rightarrow> checkpoint_table (process_records mock_consumer [] ''shardId-000'' state_100) ''shardId-000''
              | zs \<Rightarrow> Some (SequenceNumber (last zs)))"
    by blast+
  from 2 have i2: "invocations (effects (process_records mock_consumer ([] @ poison_record # [good_record])
                              ''shardId-000'' state_100))
       = [PyStr ''poison'', PyStr ''good'']"
    by (simp add: state_100_def invocations_def decoded_def mock_consumer_def good_record_def)
  from 3 g have i3: "checkpoint_table (process_records mock_consumer ([] @ poison_record # [good_record])
                         ''shardId-000'' state_100) ''shardId-000'' = Some ''102''"
    by (simp add: good_record_def)
  from h g 1 i2 i3 show ?thesis by blast
qed

text \<open>
  The claim as stated fails: after a batch that holds one record on which the handler
  raises, the shard has no checkpoint, so the checkpoint was not advanced to that
  record's sequence number.
\<close>

theorem poison_record_checkpoint_counterexample:
  "effects (process_records mock_consumer [poison_record] ''shardId-000'' empty_state)
     = [Invoke (PyStr ''poison''),
        ConsumerLog ''record_processing_error'' ''101'',
        ConsumerLog ''records_processed'' ''shardId-000'']
   \<and> SequenceNumber poison_record = ''101''
   \<and> checkpoint_table (process_records mock_consumer [poison_record] ''shardId-000'' empty_state)
        ''shardId-000'' = None"
  by (simp add: consumer_defs)


section \<open>Consumer: the checkpoint of a shard\<close>

lemma checkpoint_le_refl: "checkpoint_le x x"
  by (cases x) simp_all

lemma last_filter_in_set: "filter P xs = z # zs \<Longrightarrow> last (z # zs) \<in> set xs"
proof -
  assume f: "filter P xs = z # zs"
  have "last (z # zs) \<in> set (z # zs)" by (rule last_in_set) simp
  then have "last (z # zs) \<in> set (filter P xs)" using f by simp
  then show ?thesis by simp
qed

lemma loop_table_other:
  "sh' \<noteq> sh \<Longrightarrow> checkpoint_table (process_records_loop c sh rs st) sh' = checkpoint_table st sh'"
  by (simp add: loop_table split: list.splits)

lemma loop_table_monotone:
  assumes s: "sorted (map (seq_value \<circ> SequenceNumber) (xs @ ys))"
    and b: "\<forall>r \<in> set (xs @ ys). checkpoint_le (checkpoint_table st sh) (Some (SequenceNumber r))"
  shows "checkpoint_le (checkpoint_table (process_records_loop c sh xs st) sh)
                       (checkpoint_table (process_records_loop c sh (xs @ ys) st) sh)"
proof (cases "filter (record_ok c) ys")
  case Nil
  then show ?thesis by (simp add: loop_table_after checkpoint_le_refl)
next
  case (Cons z zs)
  then have ly: "last (z # zs) \<in> set ys" by (rule last_filter_in_set)
  have after: "checkpoint_table (process_records_loop c sh (xs @ ys) st) sh = Some (SequenceNumber (last (z # zs)))"
    using Cons by (simp add: loop_table_after)
  show ?thesis
  proof (cases "filter (record_ok c) xs")
    case Nil
    then have "checkpoint_table (process_records_loop c sh xs st) sh = checkpoint_table st sh"
      by (simp add: loop_table)
    with after b ly show ?thesis by simp
  next
    case (Cons a as)
    then have lx: "last (a # as) \<in> set xs" by (rule last_filter_in_set)
    have before: "checkpoint_table (process_records_loop c sh xs st) sh = Some (SequenceNumber (last (a # as)))"
      using Cons by (simp add: loop_table)
    from s lx ly have "seq_value (SequenceNumber (last (a # as))) \<le> seq_value (SequenceNumber (last (z # zs)))"
      by (auto simp: sorted_append)
    with before after show ?thesis by simp
  qed
qed

lemma seq_values: "seq_value ''3'' = 3" "seq_value ''5'' = 5" "seq_value ''100'' = 100"
  "seq_value ''101'' = 101" "seq_value ''102'' = 102"
  by (simp_all add: seq_value_def)


text \<open>
  Claim C8, amended. The checkpoint of a shard is written without a guard: after the
  records of a batch it is the sequence number of the last record handled without
  error, whatever it was before, and it is unchanged when there is none; the
  checkpoints of other shards are untouched. It is monotonic when the records come in
  non-decreasing order of sequence number and none is below the stored checkpoint:
  the checkpoint after any prefix of the records is then at most the checkpoint after
  any longer prefix.
\<close>

theorem checkpoint_last_writer_wins:
  "checkpoint_table (process_records_loop c sh rs st) sh
     = (case filter (record_ok c) rs of
          [] \<Rightarrow> checkpoint_table st sh
        | zs \<Rightarrow> Some (SequenceNumber (last zs)))
   \<and> (sh' \<noteq> sh \<longrightarrow> checkpoint_table (process_records_loop c sh rs st) sh' = checkpoint_table st sh')
   \<and> (sorted (map (seq_value \<circ> SequenceNumber) (xs @ ys))
      \<and> (\<forall>r \<in> set (xs @ ys). checkpoint_le (checkpoint_table st sh) (Some (SequenceNumber r)))
      \<longrightarrow> checkpoint_le (checkpoint_table (process_records_loop c sh xs st) sh)
                         (checkpoint_table (process_records_loop c sh (xs @ ys) st) sh))"
proof (intro conjI impI)
  show "checkpoint_table (process_records_loop c sh rs st) sh
     = (case filter (record_ok c) rs of
          [] \<Rightarrow> checkpoint_table st sh
        | zs \<Rightarrow> Some (SequenceNumber (last zs)))"
    by (simp add: loop_table split: list.splits)
next
  assume "sh' \<noteq> sh"
  then show "checkpoint_table (process_records_loop c sh rs st) sh' = checkpoint_table st sh'"
    by (rule loop_table_other)
next
  assume "sorted (map (seq_value \<circ> SequenceNumber) (xs @ ys))
      \<and> (\<forall>r \<in> set (xs @ ys). checkpoint_le (checkpoint_table st sh) (Some (SequenceNumber r)))"
  then show "checkpoint_le (checkpoint_table (process_records_loop c sh xs st) sh)
                         (checkpoint_table (process_records_loop c sh (xs @ ys) st) sh)"
    using loop_table_monotone by blast
qed

theorem checkpoint_last_writer_wins_witness:
  "''shardId-001'' \<noteq> ''shardId-000''
   \<and> sorted (map (seq_value \<circ> SequenceNumber) ([poison_record] @ [good_record]))
   \<and> checkpoint_le (checkpoint_table state_100 ''shardId-000'')
         (Some (SequenceNumber poison_record))
   \<and> checkpoint_le (checkpoint_table state_100 ''shardId-000'')
         (Some (SequenceNumber good_record))
   \<and> checkpoint_table (process_records_loop mock_consumer ''shardId-000''
                         [poison_record, good_record] state_100) ''shardId-000'' = Some ''102''
   \<and> checkpoint_table (process_records_loop mock_consumer ''shardId-000''
                         [poison_record, good_record] state_100) ''shardId-001'' = None
   \<and> checkpoint_le
        (checkpoint_table (process_records_loop mock_consumer ''shardId-000'' [poison_record] state_100)
           ''shardId-000'')
        (checkpoint_table (process_records_loop mock_consumer ''shardId-000''
           ([poison_record] @ [good_record]) state_100) ''shardId-000'')"
proof -
  have h1: "''shardId-001'' \<noteq> ''shardId-000''" by simp
  have h2: "sorted (map (seq_value \<circ> SequenceNumber) ([poison_record] @ [good_record]))
   \<and> (\<forall>r \<in> set ([poison_record] @ [good_record]).
         checkpoint_le (checkpoint_table state_100 ''shardId-000'') (Some (SequenceNumber r)))"
    by (simp add: poison_record_def good_record_def state_100_def seq_values)
  have ok: "filter (record_ok mock_consumer) [poison_record, good_record] = [good_record]"
    by (simp add: record_ok_def mock_consumer_def poison_record_def good_record_def)
  note t = checkpoint_last_writer_wins
             [of mock_consumer "''shardId-000''" "[poison_record, good_record]" state_100
                 "''shardId-001''" "[poison_record]" "[good_record]"]
  from t ok have 1: "checkpoint_table (process_records_loop mock_consumer ''shardId-000''
                         [poison_record, good_record] state_100) ''shardId-000'' = Some ''102''"
    by (simp add: good_record_def)
  from t h1 have 2: "checkpoint_table (process_records_loop mock_consumer ''shardId-000''
                         [poison_record, good_record] state_100) ''shardId-001'' = None"
    by (simp add: state_100_def)
  from t h2 have 3: "checkpoint_le
        (checkpoint_table (process_records_loop mock_consumer ''shardId-000'' [poison_record] state_100)
           ''shardId-000'')
        (checkpoint_table (process_records_loop mock_consumer ''shardId-000''
           ([poison_record] @ [good_record]) state_100) ''shardId-000'')"
    by blast
  from h2 have h3: "checkpoint_le (checkpoint_table state_100 ''shardId-000'')
         (Some (SequenceNumber poison_record))
     \<and> checkpoint_le (checkpoint_table state_100 ''shardId-000'')
         (Some (SequenceNumber good_record))"
    by simp
  from h1 h2 h3 1 2 3 show ?thesis by blast
qed


text \<open>
  The claim as stated fails: a record with sequence number 3 that is handled after one
  with sequence number 5 moves the checkpoint of the shard from 5 back to 3.
\<close>

theorem checkpoint_moves_backward_counterexample:
  "checkpoint_table (process_records mock_consumer [record_5] ''shardId-000'' empty_state)
      ''shardId-000'' = Some ''5''
   \<and> checkpoint_table (process_records mock_consumer [record_3] ''shardId-000''
        (process_records mock_consumer [record_5] ''shardId-000'' empty_state))
      ''shardId-000'' = Some ''3''
   \<and> seq_value ''3'' < seq_value ''5''
   \<and> \<not> checkpoint_le (Some ''5'') (Some ''3'')"
  by (simp add: consumer_defs seq_values)


section \<open>Consumer: acquiring a shard iterator\<close>

lemma iterator_requests_append:
  "iterator_requests (a @ b) = iterator_requests a @ iterator_requests b"
  by (simp add: iterator_requests_def)

lemma iterator_requests_simps:
  "iterator_requests [] = []"
  "iterator_requests (GetShardIterator s sh ty r # es) = ty # iterator_requests es"
  "iterator_requests (GetRecords i n g # es) = iterator_requests es"
  "iterator_requests (Invoke d # es) = iterator_requests es"
  "iterator_requests (ConsumerSleep n # es) = iterator_requests es"
  "iterator_requests (ConsumerLog a b # es) = iterator_requests es"
  by (simp_all add: iterator_requests_def)

lemma emit_table: "checkpoint_table (emit es st) = checkpoint_table st"
  by (simp add: emit_def)

lemma emit_effects: "effects (emit es st) = effects st @ es"
  by (simp add: emit_def)

text \<open>The checkpoint of the shard after a batch is what \<open>after_batch\<close> computes.\<close>

lemma process_records_after_batch:
  "checkpoint_table (process_records c rs sh st) sh = after_batch c (checkpoint_table st sh) rs"
  by (simp add: process_records_table loop_table after_batch_def split: list.splits)

lemma after_batch_Nil: "after_batch c cp [] = cp"
  by (simp add: after_batch_def)

lemma after_batch_nonempty:
  assumes "cp \<noteq> Some []" "\<forall>r \<in> set rs. SequenceNumber r \<noteq> []"
  shows "after_batch c cp rs \<noteq> Some []"
proof (cases "filter (record_ok c) rs")
  case Nil
  with assms(1) show ?thesis by (simp add: after_batch_def)
next
  case (Cons z zs)
  then have "last (z # zs) \<in> set rs" by (rule last_filter_in_set)
  with assms(2) have "SequenceNumber (last (z # zs)) \<noteq> []" by blast
  with Cons show ?thesis by (simp add: after_batch_def)
qed

lemma after_batch_exists: "cp \<noteq> None \<Longrightarrow> after_batch c cp rs \<noteq> None"
  by (simp add: after_batch_def split: list.splits)

text \<open>Handling the records of a batch makes no call of the transport.\<close>

lemma process_record_quiet:
  "\<exists>q. effects (process_record c sh r st) = effects st @ q \<and> list_all quiet q"
  by (simp add: process_record_def emit_def split: option.splits handler_result.splits)

lemma loop_quiet:
  "\<exists>q. effects (process_records_loop c sh rs st) = effects st @ q \<and> list_all quiet q"
proof (induction rs arbitrary: st)
  case Nil
  then show ?case by simp
next
  case (Cons r rs)
  obtain q1 where q1: "effects (process_record c sh r st) = effects st @ q1" "list_all quiet q1"
    using process_record_quiet by blast
  obtain q2 where q2: "effects (process_records_loop c sh rs (process_record c sh r st))
                         = effects (process_record c sh r st) @ q2" "list_all quiet q2"
    using Cons.IH by blast
  from q1 q2 have "effects (process_records_loop c sh (r # rs) st) = effects st @ (q1 @ q2)
                 \<and> list_all quiet (q1 @ q2)"
    by simp
  then show ?case by blast
qed

lemma process_records_quiet:
  "\<exists>q. effects (process_records c rs sh st) = effects st @ q \<and> list_all quiet q"
proof -
  obtain q where q: "effects (process_records_loop c sh rs st) = effects st @ q" "list_all quiet q"
    using loop_quiet by blast
  then have "effects (process_records c rs sh st)
               = effects st @ (q @ [ConsumerLog ''records_processed'' sh])
           \<and> list_all quiet (q @ [ConsumerLog ''records_processed'' sh])"
    by (simp add: process_records_def emit_def)
  then show ?thesis by blast
qed

lemma acquisitions_follow_quiet:
  "list_all quiet q \<Longrightarrow> acquisitions_follow c cp (q @ es) = acquisitions_follow c cp es"
proof (induction q)
  case Nil
  then show ?case by simp
next
  case (Cons e q)
  then show ?case by (cases e) simp_all
qed

lemma acquisitions_follow_never_latest:
  "cp \<noteq> None \<Longrightarrow> acquisitions_follow c cp es \<Longrightarrow> LATEST \<notin> set (iterator_requests es)"
proof (induction c cp es rule: acquisitions_follow.induct)
  case (2 c checkpoint it n records nxt es)
  then show ?case by (simp add: iterator_requests_simps after_batch_exists)
next
  case (3 c checkpoint s sh ty r es)
  then show ?case by (auto simp: iterator_requests_simps position_for_def)
qed (simp_all add: iterator_requests_simps)

lemma shard_iterator_type_position:
  "checkpoint_table st sh \<noteq> Some [] \<Longrightarrow>
   shard_iterator_type st sh = position_for (checkpoint_table st sh)"
  by (simp add: shard_iterator_type_def position_for_def split: option.splits)

lemma get_shard_iterator_effects:
  "get_shard_iterator c sh st = (r, st') \<Longrightarrow>
     checkpoint_table st' = checkpoint_table st
   \<and> effects st' = effects st
        @ [GetShardIterator (consumer_stream_name c) sh (shard_iterator_type st sh) r]"
  by (auto simp: get_shard_iterator_def Let_def emit_def)

lemma consume_loop_acquisitions:
  assumes "checkpoint_table st sh \<noteq> Some []"
    and "\<forall>t \<in> set ticks. \<forall>r \<in> set (tick_records t). SequenceNumber r \<noteq> []"
    and "consume_loop c sh ticks it st = (x, st')"
  shows "\<exists>new. effects st' = effects st @ new
              \<and> acquisitions_follow c (checkpoint_table st sh) new
              \<and> checkpoint_table st' sh \<noteq> Some []"
  using assms
proof (induction ticks arbitrary: it st)
  case Nil
  then show ?case by simp
next
  case (Cons t ts)
  show ?case
  proof (cases it)
    case None
    with Cons.prems show ?thesis by simp
  next
    case (Some i)
    show ?thesis
    proof (cases "\<not> running t \<or> i = []")
      case True
      with Cons.prems Some show ?thesis by auto
    next
      case False
      let ?cp = "checkpoint_table st sh"
      let ?st1 = "emit [GetRecords i 100 (get_records t)] st"
      have t1: "checkpoint_table ?st1 sh = ?cp" by (simp add: emit_table)
      have e1: "effects ?st1 = effects st @ [GetRecords i 100 (get_records t)]"
        by (simp add: emit_effects)
      have ts: "\<forall>t \<in> set ts. \<forall>r \<in> set (tick_records t). SequenceNumber r \<noteq> []"
        using Cons.prems(2) by simp
      show ?thesis
      proof (cases "get_records t")
        case (GetRecordsOk records next_iterator)
        let ?st2 = "if records \<noteq> [] then process_records c records sh ?st1 else ?st1"
        let ?st3 = "if records = [] then emit [ConsumerSleep 1] ?st2 else ?st2"
        have rec: "\<forall>r \<in> set records. SequenceNumber r \<noteq> []"
          using Cons.prems(2) GetRecordsOk by simp
        have t3: "checkpoint_table ?st3 sh = after_batch c ?cp records"
          by (simp add: emit_table process_records_after_batch after_batch_Nil)
        have n3: "checkpoint_table ?st3 sh \<noteq> Some []"
          unfolding t3 using Cons.prems(1) rec by (rule after_batch_nonempty)
        obtain q where q: "effects ?st3 = effects ?st1 @ q" "list_all quiet q"
        proof (cases "records = []")
          case True
          then have "effects ?st3 = effects ?st1 @ [ConsumerSleep 1]
                   \<and> list_all quiet [ConsumerSleep 1]"
            by (simp add: emit_effects)
          then show ?thesis using that by blast
        next
          case False
          then show ?thesis using process_records_quiet [of c records sh ?st1] that by auto
        qed
        from Cons.prems(3) Some False GetRecordsOk
        have "consume_loop c sh ts next_iterator ?st3 = (x, st')"
          by (cases "records = []") (simp_all add: Let_def)
        from Cons.IH [OF n3 ts this] obtain new where
          new: "effects st' = effects ?st3 @ new"
               "acquisitions_follow c (checkpoint_table ?st3 sh) new"
               "checkpoint_table st' sh \<noteq> Some []"
          by blast
        let ?all = "GetRecords i 100 (GetRecordsOk records next_iterator) # q @ new"
        have "effects st' = effects st @ ?all"
          using new(1) q(1) e1 GetRecordsOk by simp
        moreover have "acquisitions_follow c ?cp ?all"
          using new(2) q(2) unfolding t3 by (simp add: acquisitions_follow_quiet)
        ultimately show ?thesis using new(3) by blast
      next
        case (GetRecordsOtherError exn)
        with Cons.prems(3) Some False have "st' = ?st1" by (simp add: Let_def)
        then have "effects st' = effects st @ [GetRecords i 100 (GetRecordsOtherError exn)]
                 \<and> acquisitions_follow c ?cp [GetRecords i 100 (GetRecordsOtherError exn)]
                 \<and> checkpoint_table st' sh \<noteq> Some []"
          using e1 t1 GetRecordsOtherError Cons.prems(1) by simp
        then show ?thesis by blast
      next
        case (GetRecordsClientError code)
        show ?thesis
        proof (cases "code = ''ExpiredIteratorException''")
          case True
          obtain r st2 where g: "get_shard_iterator c sh ?st1 = (r, st2)"
            by (cases "get_shard_iterator c sh ?st1")
          have ty: "shard_iterator_type ?st1 sh = position_for ?cp"
            using shard_iterator_type_position [of ?st1 sh] Cons.prems(1) t1 by simp
          from get_shard_iterator_effects [OF g] ty e1 GetRecordsClientError
          have t2: "checkpoint_table st2 sh = ?cp"
            and e2: "effects st2 = effects st
                       @ [GetRecords i 100 (GetRecordsClientError code),
                          GetShardIterator (consumer_stream_name c) sh (position_for ?cp) r]"
            by (simp_all add: emit_table)
          have n2: "checkpoint_table st2 sh \<noteq> Some []" using t2 Cons.prems(1) by simp
          let ?two = "[GetRecords i 100 (GetRecordsClientError code),
                       GetShardIterator (consumer_stream_name c) sh (position_for ?cp) r]"
          have stop: "st' = st2 \<Longrightarrow> ?thesis"
          proof -
            assume "st' = st2"
            then have "effects st' = effects st @ ?two \<and> acquisitions_follow c ?cp ?two
                     \<and> checkpoint_table st' sh \<noteq> Some []"
              using e2 n2 by simp
            then show ?thesis by blast
          qed
          show ?thesis
          proof (cases r)
            case (IteratorOk it')
            from Cons.prems(3) Some False GetRecordsClientError True g IteratorOk
            have "consume_loop c sh ts (Some it') st2 = (x, st')"
              by (simp add: Let_def)
            from Cons.IH [OF n2 ts this] obtain new where
              new: "effects st' = effects st2 @ new"
                   "acquisitions_follow c (checkpoint_table st2 sh) new"
                   "checkpoint_table st' sh \<noteq> Some []"
              by blast
            have "effects st' = effects st @ (?two @ new)"
              using new(1) e2 by simp
            moreover have "acquisitions_follow c ?cp (?two @ new)"
              using new(2) t2 by simp
            ultimately show ?thesis using new(3) by blast
          next
            case (IteratorClientError code')
            from Cons.prems(3) Some False GetRecordsClientError True g IteratorClientError
            have "st' = st2" by (simp add: Let_def)
            then show ?thesis by (rule stop)
          next
            case (IteratorOtherError exn)
            from Cons.prems(3) Some False GetRecordsClientError True g IteratorOtherError
            have "st' = st2" by (simp add: Let_def)
            then show ?thesis by (rule stop)
          qed
        next
          case False
          let ?q = "[ConsumerLog ''shard_consume_error'' sh, ConsumerSleep 5]"
          let ?st2 = "emit ?q ?st1"
          have n2: "checkpoint_table ?st2 sh \<noteq> Some []"
            using Cons.prems(1) by (simp add: emit_table)
          from Cons.prems(3) Some \<open>\<not> (\<not> running t \<or> i = [])\<close> GetRecordsClientError False
          have "consume_loop c sh ts (Some i) ?st2 = (x, st')"
            by (simp add: Let_def)
          from Cons.IH [OF n2 ts this] obtain new where
            new: "effects st' = effects ?st2 @ new"
                 "acquisitions_follow c (checkpoint_table ?st2 sh) new"
                 "checkpoint_table st' sh \<noteq> Some []"
            by blast
          let ?all = "GetRecords i 100 (GetRecordsClientError code) # ?q @ new"
          have "effects st' = effects st @ ?all"
            using new(1) GetRecordsClientError by (simp add: emit_effects)
          moreover have "acquisitions_follow c ?cp ?all"
            using new(2) by (simp add: emit_table)
          ultimately show ?thesis using new(3) by blast
        qed
      qed
    qed
  qed
qed

lemma consume_shard_acquisitions:
  assumes cp: "checkpoint_table st sh \<noteq> Some []"
    and recs: "\<forall>t \<in> set ticks. \<forall>r \<in> set (tick_records t). SequenceNumber r \<noteq> []"
    and run: "consume_shard c sh ticks st = (x, st')"
  shows "\<exists>r new. effects st' = effects st
                    @ GetShardIterator (consumer_stream_name c) sh
                        (position_for (checkpoint_table st sh)) r # new
               \<and> acquisitions_follow c (checkpoint_table st sh) new
               \<and> checkpoint_table st' sh \<noteq> Some []"
proof -
  let ?cp = "checkpoint_table st sh"
  obtain r st1 where g: "get_shard_iterator c sh st = (r, st1)"
    by (cases "get_shard_iterator c sh st")
  from get_shard_iterator_effects [OF g] shard_iterator_type_position [OF cp]
  have t1: "checkpoint_table st1 sh = ?cp"
    and e1: "effects st1 = effects st
               @ [GetShardIterator (consumer_stream_name c) sh (position_for ?cp) r]"
    by simp_all
  have n1: "checkpoint_table st1 sh \<noteq> Some []" using t1 cp by simp
  have stop: "st' = st1 \<Longrightarrow> ?thesis"
  proof -
    assume "st' = st1"
    then have "effects st' = effects st
                 @ GetShardIterator (consumer_stream_name c) sh (position_for ?cp) r # []
             \<and> acquisitions_follow c ?cp [] \<and> checkpoint_table st' sh \<noteq> Some []"
      using e1 n1 by simp
    then show ?thesis by blast
  qed
  show ?thesis
  proof (cases r)
    case (IteratorOk it)
    with run g have "consume_loop c sh ticks (Some it) st1 = (x, st')"
      by (simp add: consume_shard_def)
    from consume_loop_acquisitions [OF n1 recs this] obtain new where
      new: "effects st' = effects st1 @ new" "acquisitions_follow c (checkpoint_table st1 sh) new"
           "checkpoint_table st' sh \<noteq> Some []"
      by blast
    have "effects st' = effects st
            @ GetShardIterator (consumer_stream_name c) sh (position_for ?cp) r # new"
      using new(1) e1 by simp
    with new(2,3) t1 show ?thesis by auto
  next
    case (IteratorClientError code)
    with run g have "st' = st1" by (simp add: consume_shard_def)
    then show ?thesis by (rule stop)
  next
    case (IteratorOtherError exn)
    with run g have "st' = st1" by (simp add: consume_shard_def)
    then show ?thesis by (rule stop)
  qed
qed

text \<open>
  Claim C7. Every acquisition of a position for a shard, at the start of \<open>_consume_shard\<close> and
  again after an \<open>ExpiredIteratorException\<close>, asks for the position that corresponds to the
  checkpoint the shard has at that moment: the position after the checkpoint when there is
  one, the newest record when there is none. Sequence numbers of the stream are not empty, and
  the checkpoints of a consumer are sequence numbers of records it has handled, its table
  being empty when it is built. So, for a shard whose checkpoint is not the empty string and a
  run of \<open>_consume_shard\<close> over records with non-empty sequence numbers: the run starts with a
  request for the position of the stored checkpoint; every later request asks for the
  position of the checkpoint as the batches handled until then have left it
  (\<open>acquisitions_follow\<close>, where \<open>after_batch\<close> is the checkpoint of the shard after a batch);
  if the shard had a checkpoint at the start, no request asks for the newest record; and the
  checkpoint is not the empty string at the end either. After an
  \<open>ExpiredIteratorException\<close> the next effect of the loop is such a request.
\<close>

theorem iterator_from_checkpoint:
  "(checkpoint_table st sh \<noteq> Some []
      \<and> (\<forall>t \<in> set ticks. \<forall>r \<in> set (tick_records t). SequenceNumber r \<noteq> [])
      \<and> consume_shard c sh ticks st = (x, st')
      \<longrightarrow> (\<exists>r new. effects st' = effects st
                       @ GetShardIterator (consumer_stream_name c) sh
                           (position_for (checkpoint_table st sh)) r # new
                  \<and> acquisitions_follow c (checkpoint_table st sh) new
                  \<and> (checkpoint_table st sh \<noteq> None \<longrightarrow> LATEST \<notin> set (iterator_requests new)))
          \<and> checkpoint_table st' sh \<noteq> Some [])
   \<and> (checkpoint_table st sh \<noteq> Some [] \<and> running t \<and> it \<noteq> []
      \<and> get_records t = GetRecordsClientError ''ExpiredIteratorException''
      \<longrightarrow> (\<exists>r. effects (snd (consume_loop c sh [t] (Some it) st))
                 = effects st
                   @ [GetRecords it 100 (get_records t),
                      GetShardIterator (consumer_stream_name c) sh
                        (position_for (checkpoint_table st sh)) r]))
   \<and> checkpoint_table (process_records c records sh st) sh
       = after_batch c (checkpoint_table st sh) records
   \<and> position_for None = LATEST
   \<and> position_for (Some s) = AFTER_SEQUENCE_NUMBER s"
proof (intro conjI impI)
  assume a: "checkpoint_table st sh \<noteq> Some []
      \<and> (\<forall>t \<in> set ticks. \<forall>r \<in> set (tick_records t). SequenceNumber r \<noteq> [])
      \<and> consume_shard c sh ticks st = (x, st')"
  then obtain r new where
    n: "effects st' = effects st
          @ GetShardIterator (consumer_stream_name c) sh (position_for (checkpoint_table st sh)) r # new"
       "acquisitions_follow c (checkpoint_table st sh) new"
       "checkpoint_table st' sh \<noteq> Some []"
    using consume_shard_acquisitions [of st sh ticks c x st'] by blast
  from n(2) have "checkpoint_table st sh \<noteq> None \<longrightarrow> LATEST \<notin> set (iterator_requests new)"
    using acquisitions_follow_never_latest by blast
  with n(1,2) show "\<exists>r new. effects st' = effects st
                       @ GetShardIterator (consumer_stream_name c) sh
                           (position_for (checkpoint_table st sh)) r # new
                  \<and> acquisitions_follow c (checkpoint_table st sh) new
                  \<and> (checkpoint_table st sh \<noteq> None \<longrightarrow> LATEST \<notin> set (iterator_requests new))"
    by blast
  from n(3) show "checkpoint_table st' sh \<noteq> Some []" .
next
  assume a: "checkpoint_table st sh \<noteq> Some [] \<and> running t \<and> it \<noteq> []
      \<and> get_records t = GetRecordsClientError ''ExpiredIteratorException''"
  let ?st1 = "emit [GetRecords it 100 (get_records t)] st"
  obtain r st2 where g: "get_shard_iterator c sh ?st1 = (r, st2)"
    by (cases "get_shard_iterator c sh ?st1")
  have ty: "shard_iterator_type ?st1 sh = position_for (checkpoint_table st sh)"
    using shard_iterator_type_position [of ?st1 sh] a by (simp add: emit_table)
  from get_shard_iterator_effects [OF g] ty
  have e2: "effects st2 = effects st
              @ [GetRecords it 100 (get_records t),
                 GetShardIterator (consumer_stream_name c) sh
                   (position_for (checkpoint_table st sh)) r]"
    by (simp add: emit_effects)
  have "snd (consume_loop c sh [t] (Some it) st) = st2"
    using a g by (cases r) (simp_all add: Let_def)
  with e2 show "\<exists>r. effects (snd (consume_loop c sh [t] (Some it) st))
                 = effects st
                   @ [GetRecords it 100 (get_records t),
                      GetShardIterator (consumer_stream_name c) sh
                        (position_for (checkpoint_table st sh)) r]"
    by auto
next
  show "checkpoint_table (process_records c records sh st) sh
       = after_batch c (checkpoint_table st sh) records"
    by (rule process_records_after_batch)
qed (simp_all add: position_for_def)

lemma consume_sample:
  "consume_shard mock_consumer ''shardId-000'' sample_ticks state_100 =
     (None,
      \<lparr> checkpoint_table = [''shardId-000'' \<mapsto> ''102''],
        effects =
          [GetShardIterator ''healthcare-events'' ''shardId-000'' (AFTER_SEQUENCE_NUMBER ''100'')
             (IteratorOk ''iterator-0''),
           GetRecords ''iterator-0'' 100
             (GetRecordsOk [poison_record, good_record] (Some ''iterator-1'')),
           Invoke (PyStr ''poison''),
           ConsumerLog ''record_processing_error'' ''101'',
           Invoke (PyStr ''good''),
           ConsumerLog ''records_processed'' ''shardId-000'',
           GetRecords ''iterator-1'' 100 (GetRecordsClientError ''ExpiredIteratorException''),
           GetShardIterator ''healthcare-events'' ''shardId-000'' (AFTER_SEQUENCE_NUMBER ''102'')
             (IteratorOk ''iterator-0'')] \<rparr>)"
  by (simp add: consume_shard_def get_shard_iterator_def shard_iterator_type_def
        sample_ticks_def state_100_def consumer_defs Let_def)

lemma consume_sample_new_shard:
  "consume_shard mock_consumer ''shardId-000'' sample_ticks empty_state =
     (None,
      \<lparr> checkpoint_table = [''shardId-000'' \<mapsto> ''102''],
        effects =
          [GetShardIterator ''healthcare-events'' ''shardId-000'' LATEST
             (IteratorOk ''iterator-0''),
           GetRecords ''iterator-0'' 100
             (GetRecordsOk [poison_record, good_record] (Some ''iterator-1'')),
           Invoke (PyStr ''poison''),
           ConsumerLog ''record_processing_error'' ''101'',
           Invoke (PyStr ''good''),
           ConsumerLog ''records_processed'' ''shardId-000'',
           GetRecords ''iterator-1'' 100 (GetRecordsClientError ''ExpiredIteratorException''),
           GetShardIterator ''healthcare-events'' ''shardId-000'' (AFTER_SEQUENCE_NUMBER ''102'')
             (IteratorOk ''iterator-0'')] \<rparr>)"
  by (simp add: consume_shard_def get_shard_iterator_def shard_iterator_type_def
        sample_ticks_def consumer_defs Let_def)

theorem iterator_from_checkpoint_witness:
  "checkpoint_table state_100 ''shardId-000'' = Some ''100''
   \<and> checkpoint_table empty_state ''shardId-000'' = None
   \<and> map SequenceNumber (concat (map tick_records sample_ticks)) = [''101'', ''102'']
   \<and> (\<exists>st' r new. consume_shard mock_consumer ''shardId-000'' sample_ticks state_100 = (None, st')
          \<and> effects st' = GetShardIterator ''healthcare-events'' ''shardId-000''
                             (AFTER_SEQUENCE_NUMBER ''100'') r # new
          \<and> acquisitions_follow mock_consumer (Some ''100'') new
          \<and> iterator_requests new = [AFTER_SEQUENCE_NUMBER ''102'']
          \<and> checkpoint_table st' ''shardId-000'' = Some ''102'')
   \<and> (\<exists>st' r new. consume_shard mock_consumer ''shardId-000'' sample_ticks empty_state = (None, st')
          \<and> effects st' = GetShardIterator ''healthcare-events'' ''shardId-000'' LATEST r # new
          \<and> acquisitions_follow mock_consumer None new
          \<and> iterator_requests new = [AFTER_SEQUENCE_NUMBER ''102''])"
proof -
  let ?sh = "''shardId-000''"
  have h1: "checkpoint_table state_100 ?sh = Some ''100''"
    by (simp add: state_100_def)
  have h2: "checkpoint_table empty_state ?sh = None"
    by (simp add: empty_state_def)
  have g1: "checkpoint_table state_100 ?sh \<noteq> Some []" using h1 by simp
  have g2: "checkpoint_table empty_state ?sh \<noteq> Some []" using h2 by simp
  have h3: "\<forall>t \<in> set sample_ticks. \<forall>r \<in> set (tick_records t). SequenceNumber r \<noteq> []"
    by (simp add: sample_ticks_def poison_record_def good_record_def)
  have h4: "map SequenceNumber (concat (map tick_records sample_ticks)) = [''101'', ''102'']"
    by (simp add: sample_ticks_def poison_record_def good_record_def)
  have n: "consumer_stream_name mock_consumer = ''healthcare-events''"
    by (simp add: mock_consumer_def)
  obtain st1 where run1: "consume_shard mock_consumer ?sh sample_ticks state_100 = (None, st1)"
    and req1: "iterator_requests (effects st1)
                 = [AFTER_SEQUENCE_NUMBER ''100'', AFTER_SEQUENCE_NUMBER ''102'']"
    and tab1: "checkpoint_table st1 ?sh = Some ''102''"
    using consume_sample by (simp add: iterator_requests_simps)
  obtain st2 where run2: "consume_shard mock_consumer ?sh sample_ticks empty_state = (None, st2)"
    and req2: "iterator_requests (effects st2) = [LATEST, AFTER_SEQUENCE_NUMBER ''102'']"
    using consume_sample_new_shard by (simp add: iterator_requests_simps)
  note t = iterator_from_checkpoint [of state_100 ?sh sample_ticks mock_consumer None st1]
  note u = iterator_from_checkpoint [of empty_state ?sh sample_ticks mock_consumer None st2]
  from t g1 h3 run1 obtain r1 new1 where
    a: "effects st1 = effects state_100
          @ GetShardIterator (consumer_stream_name mock_consumer) ?sh
              (position_for (checkpoint_table state_100 ?sh)) r1 # new1"
       "acquisitions_follow mock_consumer (checkpoint_table state_100 ?sh) new1"
    by blast
  from t have p: "position_for None = LATEST"
      "position_for (Some ''100'') = AFTER_SEQUENCE_NUMBER ''100''"
    by (simp_all add: position_for_def)
  from a h1 n p have a': "effects st1 = GetShardIterator ''healthcare-events'' ?sh
                             (AFTER_SEQUENCE_NUMBER ''100'') r1 # new1"
       "acquisitions_follow mock_consumer (Some ''100'') new1"
    by (simp_all add: state_100_def)
  from a'(1) req1 have a'': "iterator_requests new1 = [AFTER_SEQUENCE_NUMBER ''102'']"
    by (simp add: iterator_requests_simps)
  from u g2 h3 run2 obtain r2 new2 where
    b: "effects st2 = effects empty_state
          @ GetShardIterator (consumer_stream_name mock_consumer) ?sh
              (position_for (checkpoint_table empty_state ?sh)) r2 # new2"
       "acquisitions_follow mock_consumer (checkpoint_table empty_state ?sh) new2"
    by blast
  from b h2 n p have b': "effects st2 = GetShardIterator ''healthcare-events'' ?sh LATEST r2 # new2"
       "acquisitions_follow mock_consumer None new2"
    by (simp_all add: empty_state_def)
  from b'(1) req2 have b'': "iterator_requests new2 = [AFTER_SEQUENCE_NUMBER ''102'']"
    by (simp add: iterator_requests_simps)
  from h1 h2 h4 run1 a' a'' tab1 run2 b' b'' show ?thesis by blast
qed

end
